theory Spec2Isabelle
  imports Main
begin

unbundle bit_operations_syntax

section \<open>JavaScript values used by the routes\<close>

text \<open>
  Strings are modelled as \<^typ>\<open>string\<close> over ASCII. An optional or nullable string
  (\<^verbatim>\<open>string | null | undefined\<close>) is a \<^typ>\<open>string option\<close>; JavaScript treats
  both the missing value and the empty string as falsy.
\<close>

definition truthy :: "string option \<Rightarrow> bool" where
  "truthy v = (case v of None \<Rightarrow> False | Some s \<Rightarrow> s \<noteq> [])"

text \<open>\<^verbatim>\<open>v || ''\<close>\<close>

definition orEmpty :: "string option \<Rightarrow> string" where
  "orEmpty v = (case v of None \<Rightarrow> [] | Some s \<Rightarrow> s)"

definition lowerChar :: "char \<Rightarrow> char" where
  "lowerChar c =
     (let n = (of_char c :: nat) in if 65 \<le> n \<and> n \<le> 90 then char_of (n + 32) else c)"

definition toLowerCase :: "string \<Rightarrow> string" where
  "toLowerCase s = map lowerChar s"

text \<open>The ASCII members of the class \<^verbatim>\<open>\s\<close>: tab, line feed, vertical tab, form feed,
  carriage return and space.\<close>

definition isSpace :: "char \<Rightarrow> bool" where
  "isSpace c = (let n = (of_char c :: nat) in (9 \<le> n \<and> n \<le> 13) \<or> n = 32)"

definition trim :: "string \<Rightarrow> string" where
  "trim s = rev (dropWhile isSpace (rev (dropWhile isSpace s)))"

text \<open>\<^verbatim>\<open>s.replace(/\s+/g, ' ')\<close>: every maximal run of white space becomes one space.
  The flag says whether the previous character belonged to a run.\<close>

fun squeeze :: "bool \<Rightarrow> string \<Rightarrow> string" where
  "squeeze inRun [] = []"
| "squeeze inRun (c # cs) =
     (if isSpace c then (if inRun then squeeze True cs else CHR '' '' # squeeze True cs)
      else c # squeeze False cs)"

text \<open>\<^verbatim>\<open>s.includes(k)\<close>\<close>

fun startsWith :: "string \<Rightarrow> string \<Rightarrow> bool" where
  "startsWith s [] = True"
| "startsWith [] (k # ks) = False"
| "startsWith (c # cs) (k # ks) = (c = k \<and> startsWith cs ks)"

fun includesStr :: "string \<Rightarrow> string \<Rightarrow> bool" where
  "includesStr [] k = (k = [])"
| "includesStr (c # cs) k = (startsWith (c # cs) k \<or> includesStr cs k)"

text \<open>\<^verbatim>\<open>s.split(sep)\<close> for a one-character separator.\<close>

fun splitOn :: "char \<Rightarrow> string \<Rightarrow> string list" where
  "splitOn sep [] = [[]]"
| "splitOn sep (c # cs) =
     (case splitOn sep cs of
        [] \<Rightarrow> [[c]]
      | p # ps \<Rightarrow> if c = sep then [] # p # ps else (c # p) # ps)"

text \<open>\<^verbatim>\<open>String(n)\<close> for a non-negative integer.\<close>

definition digitChar :: "nat \<Rightarrow> char" where
  "digitChar d = char_of (48 + d)"

fun showNat :: "nat \<Rightarrow> string" where
  "showNat n = (if n < 10 then [digitChar n] else showNat (n div 10) @ [digitChar (n mod 10)])"

declare showNat.simps [simp del]

text \<open>
  A JavaScript \<^verbatim>\<open>Map\<close> iterates in insertion order and \<^verbatim>\<open>set\<close> on a present key
  keeps the key's position, so a map is an association list: \<open>mapSet\<close> overwrites in
  place or appends.
\<close>

definition mapHas :: "'k \<Rightarrow> ('k \<times> 'v) list \<Rightarrow> bool" where
  "mapHas k m = (map_of m k \<noteq> None)"

fun mapSet :: "'k \<Rightarrow> 'v \<Rightarrow> ('k \<times> 'v) list \<Rightarrow> ('k \<times> 'v) list" where
  "mapSet k v [] = [(k, v)]"
| "mapSet k v ((k', v') # m) = (if k' = k then (k, v) # m else (k', v') # mapSet k v m)"

definition mapDelete :: "'k \<Rightarrow> ('k \<times> 'v) list \<Rightarrow> ('k \<times> 'v) list" where
  "mapDelete k m = filter (\<lambda>kv. fst kv \<noteq> k) m"

section \<open>The article type (src/app/api/news/route.ts)\<close>

record Source =
  name :: string
  source_url :: "string option"

record NewsArticle =
  article_id :: "string option"
  title :: string
  description :: string
  url :: "string option"
  urlToImage :: "string option"
  publishedAt :: string
  source :: Source
  category :: string
  content :: "string option"
  language :: "string option"
  country :: "string option"

definition EXCLUDE_DOMAINS :: "string list" where
  "EXCLUDE_DOMAINS =
     [''news.google.com'', ''news.yahoo.com'', ''yahoo.com'', ''msn.com'', ''pressreader.com'',
      ''facebook.com'', ''twitter.com'', ''x.com'', ''reddit.com'', ''youtube.com'']"

section \<open>The sticky cache: getCached and setCached\<close>

record CacheEntry =
  ts :: int
  entry_articles :: "NewsArticle list"
  entry_providerTrace :: "string list"

type_synonym Cache = "(string \<times> CacheEntry) list"

definition CACHE_TTL_MS :: int where
  "CACHE_TTL_MS = 60000"

definition MAX_CACHE_ENTRIES :: nat where
  "MAX_CACHE_ENTRIES = 100"

text \<open>\<open>now\<close> is the reading of \<^verbatim>\<open>Date.now()\<close>, in milliseconds.\<close>

definition getCached :: "int \<Rightarrow> string \<Rightarrow> Cache \<Rightarrow> CacheEntry option" where
  "getCached now key memoryCache =
     (case map_of memoryCache key of
        None \<Rightarrow> None
      | Some entry \<Rightarrow> if now - ts entry < CACHE_TTL_MS then Some entry else None)"

text \<open>The eviction scan. \<open>oldestTs = None\<close> stands for \<^verbatim>\<open>Infinity\<close>, below which every
  time stamp lies; the comparison is strict, so the first of several oldest entries is
  the one remembered.\<close>

fun oldestScan :: "string option \<times> int option \<Rightarrow> Cache \<Rightarrow> string option \<times> int option" where
  "oldestScan acc [] = acc"
| "oldestScan (oldestKey, oldestTs) ((k, v) # rest) =
     (if (case oldestTs of None \<Rightarrow> True | Some t \<Rightarrow> ts v < t)
      then oldestScan (Some k, Some (ts v)) rest
      else oldestScan (oldestKey, oldestTs) rest)"

definition setCached ::
  "int \<Rightarrow> string \<Rightarrow> NewsArticle list \<Rightarrow> string list \<Rightarrow> Cache \<Rightarrow> Cache" where
  "setCached now key articles providerTrace memoryCache =
     (let m = mapSet key
                \<lparr>ts = now, entry_articles = articles, entry_providerTrace = providerTrace\<rparr>
                memoryCache
      in if length m > MAX_CACHE_ENTRIES
         then (if truthy (fst (oldestScan (None, None) m))
               then mapDelete (orEmpty (fst (oldestScan (None, None) m))) m
               else m)
         else m)"

text \<open>
  What the handler keeps true of \<open>memoryCache\<close> between requests, \<open>T\<close> being a reading
  of the clock no earlier than the last write: no entry is stamped after \<open>T\<close>, keys are
  non-empty strings (\<^verbatim>\<open>makeKey\<close> returns a JSON object literal) and unique, and the size
  cap holds.
\<close>

definition cacheOk :: "int \<Rightarrow> Cache \<Rightarrow> bool" where
  "cacheOk T c =
     ((\<forall>kv \<in> set c. ts (snd kv) \<le> T \<and> fst kv \<noteq> [])
      \<and> length c \<le> MAX_CACHE_ENTRIES \<and> distinct (map fst c))"

section \<open>The date window: withinWindow\<close>

text \<open>
  \<open>getTime s\<close> stands for \<^verbatim>\<open>new Date(s).getTime()\<close>, the milliseconds since the epoch,
  with \<open>None\<close> for \<^verbatim>\<open>NaN\<close>. The parser belongs to the JavaScript runtime, so it is a
  parameter of the model.
\<close>

definition withinWindow ::
  "(string \<Rightarrow> int option) \<Rightarrow> string \<Rightarrow> string option \<Rightarrow> string option \<Rightarrow> bool" where
  "withinWindow getTime isoStr from_iso to_iso =
     (if \<not> truthy from_iso \<and> \<not> truthy to_iso then True
      else case getTime isoStr of
        None \<Rightarrow> True
      | Some articleTime \<Rightarrow>
          if truthy from_iso \<and>
             (case getTime (orEmpty from_iso) of None \<Rightarrow> False
              | Some fromTime \<Rightarrow> articleTime < fromTime)
          then False
          else if truthy to_iso \<and>
             (case getTime (orEmpty to_iso) of None \<Rightarrow> False
              | Some toTime \<Rightarrow> articleTime > toTime)
          then False
          else True)"

section \<open>Host names, title keys and the deduplicator\<close>

text \<open>
  \<open>hostnameOf u\<close> stands for \<^verbatim>\<open>new URL(u).hostname\<close>, with \<open>None\<close> where the
  constructor throws. The URL parser belongs to the runtime and is a parameter; everything
  proved below holds for every parser.
\<close>

definition stripWww :: "string \<Rightarrow> string" where
  "stripWww h = (if startsWith h ''www.'' then drop 4 h else h)"

definition getHostname :: "(string \<Rightarrow> string option) \<Rightarrow> string option \<Rightarrow> string" where
  "getHostname hostnameOf u =
     (if \<not> truthy u then []
      else case hostnameOf (orEmpty u) of None \<Rightarrow> [] | Some h \<Rightarrow> stripWww h)"

definition normalizeTitle :: "string \<Rightarrow> string" where
  "normalizeTitle t = trim (squeeze False (toLowerCase t))"

text \<open>\<^verbatim>\<open>(a.url || '').split('?')[0]\<close>\<close>

definition keyUrlOf :: "NewsArticle \<Rightarrow> string" where
  "keyUrlOf a = takeWhile (\<lambda>c. c \<noteq> CHR ''?'') (orEmpty (url a))"

definition keyTitleOf :: "NewsArticle \<Rightarrow> string" where
  "keyTitleOf a = normalizeTitle (title a)"

definition excludedHost :: "(string \<Rightarrow> string option) \<Rightarrow> NewsArticle \<Rightarrow> bool" where
  "excludedHost hostnameOf a = (getHostname hostnameOf (url a) \<in> set EXCLUDE_DOMAINS)"

text \<open>The first loop of \<^verbatim>\<open>dedupeArticles\<close>: the state is the pair of maps
  \<open>(byUrl, byTitle)\<close>.\<close>

fun dedupeScan ::
  "(string \<Rightarrow> string option) \<Rightarrow> NewsArticle list \<Rightarrow>
   (string \<times> NewsArticle) list \<times> (string \<times> NewsArticle) list \<Rightarrow>
   (string \<times> NewsArticle) list \<times> (string \<times> NewsArticle) list" where
  "dedupeScan hostnameOf [] (byUrl, byTitle) = (byUrl, byTitle)"
| "dedupeScan hostnameOf (a # items) (byUrl, byTitle) =
     (if excludedHost hostnameOf a then dedupeScan hostnameOf items (byUrl, byTitle)
      else if keyUrlOf a \<noteq> [] \<and> \<not> mapHas (keyUrlOf a) byUrl
      then dedupeScan hostnameOf items (mapSet (keyUrlOf a) a byUrl, byTitle)
      else if keyTitleOf a \<noteq> [] \<and> \<not> mapHas (keyTitleOf a) byTitle
      then dedupeScan hostnameOf items (byUrl, mapSet (keyTitleOf a) a byTitle)
      else dedupeScan hostnameOf items (byUrl, byTitle))"

text \<open>The second loop: an entry of \<open>byTitle\<close> is pushed unless \<open>merged\<close> already holds
  an article with that normalized title.\<close>

fun dedupeMerge :: "NewsArticle list \<Rightarrow> (string \<times> NewsArticle) list \<Rightarrow> NewsArticle list" where
  "dedupeMerge merged [] = merged"
| "dedupeMerge merged ((t, art) # rest) =
     (if find (\<lambda>m. normalizeTitle (title m) = t) merged = None
      then dedupeMerge (merged @ [art]) rest
      else dedupeMerge merged rest)"

definition dedupeArticles ::
  "(string \<Rightarrow> string option) \<Rightarrow> NewsArticle list \<Rightarrow> NewsArticle list" where
  "dedupeArticles hostnameOf items =
     (case dedupeScan hostnameOf items ([], []) of
        (byUrl, byTitle) \<Rightarrow> dedupeMerge (map snd byUrl) byTitle)"

section \<open>Sample values for the worked examples\<close>

text \<open>The values \<^verbatim>\<open>new Date(s).getTime()\<close> gives for three ISO 8601 literals, and
  \<^verbatim>\<open>NaN\<close> elsewhere.\<close>

definition sampleGetTime :: "string \<Rightarrow> int option" where
  "sampleGetTime s =
     (if s = ''2024-01-01T00:00:00.000Z'' then Some 1704067200000
      else if s = ''2024-01-15T12:00:00.000Z'' then Some 1705320000000
      else if s = ''2024-01-31T00:00:00.000Z'' then Some 1706659200000
      else None)"

text \<open>The host name of an \<^verbatim>\<open>http://\<close> or \<^verbatim>\<open>https://\<close> URL with an ASCII host and
  no user information, as the URL parser returns it; other strings are rejected.\<close>

definition httpHostname :: "string \<Rightarrow> string option" where
  "httpHostname u =
     (let rest = (if startsWith u ''https://'' then Some (drop 8 u)
                  else if startsWith u ''http://'' then Some (drop 7 u) else None)
      in case rest of
           None \<Rightarrow> None
         | Some r \<Rightarrow>
             (let h = takeWhile (\<lambda>c. c \<notin> set ''/?#:'') r
              in if h = [] then None else Some (toLowerCase h)))"

definition mkArticle :: "string \<Rightarrow> string \<Rightarrow> NewsArticle" where
  "mkArticle u t =
     \<lparr>article_id = None, title = t, description = ''No description.'', url = Some u,
      urlToImage = None, publishedAt = ''2024-01-15T12:00:00.000Z'',
      source = \<lparr>name = ''Rappler'', source_url = None\<rparr>, category = ''dpwh'',
      content = None, language = None, country = None\<rparr>"

text \<open>Three syndicated copies of one story: the URLs differ in the query string only;
  the second carries another headline, the third the first's headline up to case and
  white space.\<close>

definition storyRss :: NewsArticle where
  "storyRss = mkArticle ''https://www.rappler.com/nation/story?utm_source=rss''
     ''DPWH audit flags ghost project''"

definition storyRetitled :: NewsArticle where
  "storyRetitled = mkArticle ''https://www.rappler.com/nation/story?utm_source=twitter''
     ''COA flags DPWH ghost project''"

definition storyTwitter :: NewsArticle where
  "storyTwitter = mkArticle ''https://www.rappler.com/nation/story?utm_source=twitter''
     ''DPWH  Audit flags ghost project ''"

section \<open>Invariant of the deduplicator's first loop\<close>

text \<open>
  Both maps have distinct keys; an entry of \<open>byUrl\<close> is filed under its own non-empty URL
  key, an entry of \<open>byTitle\<close> under its own non-empty title key, no entry is on the
  deny-list, and an article reaches \<open>byTitle\<close> only when it has no URL key or its URL
  key is already taken in \<open>byUrl\<close>.
\<close>

definition scanInv ::
  "(string \<Rightarrow> string option) \<Rightarrow>
   (string \<times> NewsArticle) list \<times> (string \<times> NewsArticle) list \<Rightarrow> bool" where
  "scanInv H s =
     (distinct (map fst (fst s))
      \<and> (\<forall>k a. (k, a) \<in> set (fst s) \<longrightarrow> k = keyUrlOf a \<and> k \<noteq> [] \<and> \<not> excludedHost H a)
      \<and> distinct (map fst (snd s))
      \<and> (\<forall>t a. (t, a) \<in> set (snd s) \<longrightarrow> t = keyTitleOf a \<and> t \<noteq> [] \<and> \<not> excludedHost H a
            \<and> (keyUrlOf a = [] \<or> keyUrlOf a \<in> fst ` set (fst s))))"

section \<open>The RSS category classifier: isCorruptionRelated (unnamed/part_005)\<close>

definition UPDATED_CORRUPTION_KEYWORDS :: "(string \<times> string list) list" where
  "UPDATED_CORRUPTION_KEYWORDS =
    [
     (''corrupt-politicians'',
      [
       ''corrupt'', ''corruption'', ''plunder'', ''malversation'', ''kickback'',
       ''bribery'', ''ghost employee'', ''anomalous'', ''ombudsman'', ''sandiganbayan'',
       ''swiss bank'', ''unexplained wealth'', ''lifestyle check'', ''saln'',
       ''pork barrel'', ''pdaf'', ''graft'', ''impeachment'', ''plunder case'',
       ''arrested mayor'', ''arrested governor'', ''anti-graft'', ''comelec'', ''pcgg'',
       ''marcos wealth'', ''hidden assets'']),
     (''dpwh'',
      [
       ''dpwh'', ''ghost project'', ''overpriced'', ''infrastructure scam'',
       ''road project'', ''bridge anomaly'', ''kickback'', ''contractor'', ''bid rigging'',
       ''coa audit'', ''public works'', ''highway corruption'', ''construction fraud'',
       ''fake invoice'', ''substandard materials'', ''build build build'',
       ''infrastructure corruption'', ''procurement anomaly'', ''contract irregularity'',
       ''project overrun'']),
     (''flood-control'',
      [
       ''flood control'', ''dike'', ''embankment'', ''drainage'', ''ghost project'',
       ''substandard'', ''flood mitigation'', ''pumping station'', ''river dredging'',
       ''flood management'', ''waterway'', ''flood infrastructure'', ''dam project'',
       ''retaining wall'', ''spillway'', ''watershed'', ''flood prone'', ''sea wall'',
       ''storm surge'', ''flood prevention'']),
     (''nepo-babies'',
      [
       ''political dynasty'', ''nepo baby'', ''nepo babies'', ''politician son'',
       ''politician daughter'', ''luxury car'', ''expensive'', ''lamborghini'',
       ''ferrari'', ''penthouse'', ''shopping spree'', ''instagram'', ''tiktok'',
       ''lavish lifestyle'', ''family wealth'', ''claudine co'', ''gela marasigan'',
       ''gela alonte'', ''vern enciso'', ''verniece enciso'', ''jammy cruz'',
       ''jasmine chan'', ''christine lim'', ''canceled nepo babies'',
       ''cancel nepo babies'', ''nepo baby culture'', ''political family'',
       ''dynasty politics'', ''inherited power'', ''family politics'',
       ''privileged youth'', ''political heir'', ''born into politics'',
       ''political bloodline'', ''designer'', ''brand new'', ''luxury lifestyle'',
       ''expensive taste'', ''wealthy family'', ''private school'', ''exclusive'',
       ''high-end'', ''premium'', ''lavish'', ''extravagant'', ''politician family'',
       ''mayor son'', ''governor daughter'', ''congressman son'', ''senator daughter'',
       ''luxury watch'', ''designer bag'', ''private jet'', ''yacht'', ''mansion'',
       ''exclusive school'', ''abroad vacation'', ''expensive jewelry'', ''brand new car'',
       ''lavish wedding'', ''luxury hotel'', ''five star'', ''first class flight''])]"

text \<open>\<open>categoryScores\<close> is an object with four string keys; \<^verbatim>\<open>Object.keys\<close> and
  \<^verbatim>\<open>Object.values\<close> list it in insertion order, so it is an association list, and
  \<^verbatim>\<open>categoryScores[category] += n\<close> rewrites the entry of that key in place.\<close>

type_synonym Scores = "(string \<times> int) list"

definition addScore :: "string \<Rightarrow> int \<Rightarrow> Scores \<Rightarrow> Scores" where
  "addScore categoryKey n scores =
     map (\<lambda>cv. if fst cv = categoryKey then (fst cv, snd cv + n) else cv) scores"

definition initialScores :: Scores where
  "initialScores =
     [(''corrupt-politicians'', 0), (''dpwh'', 0), (''flood-control'', 0), (''nepo-babies'', 0)]"

definition NAME_BONUS_KEYWORDS :: "string list" where
  "NAME_BONUS_KEYWORDS =
     [''claudine co'', ''gela marasigan'', ''gela alonte'', ''vern enciso'',
      ''verniece enciso'', ''jammy cruz'', ''jasmine chan'', ''christine lim'']"

definition KEY_TERM_KEYWORDS :: "string list" where
  "KEY_TERM_KEYWORDS =
     [''corruption'', ''plunder'', ''ghost project'', ''kickback'', ''malversation'', ''dpwh'']"

text \<open>The body of the inner \<^verbatim>\<open>forEach\<close>: one keyword of one category.\<close>

definition scoreKeyword :: "string \<Rightarrow> string \<Rightarrow> Scores \<Rightarrow> string \<Rightarrow> Scores" where
  "scoreKeyword contentLower categoryKey scores keyword =
     (let keywordLower = toLowerCase keyword;
          exact =
            (if includesStr contentLower keywordLower
             then (let s1 = addScore categoryKey 1 scores;
                       s2 = (if includesStr keywordLower '' '' \<and> length keywordLower > 8
                             then addScore categoryKey 1 s1 else s1);
                       s3 = (if keywordLower \<in> set NAME_BONUS_KEYWORDS
                             then addScore categoryKey 3 s2 else s2)
                   in if keywordLower \<in> set KEY_TERM_KEYWORDS
                      then addScore categoryKey 2 s3 else s3)
             else scores)
      in if categoryKey = ''nepo-babies''
         then (let nameParts = splitOn (CHR '' '') keywordLower
               in if length nameParts \<ge> 2
                     \<and> list_all (\<lambda>part. includesStr contentLower part) nameParts
                  then addScore categoryKey 2 exact else exact)
         else exact)"

text \<open>The outer \<^verbatim>\<open>forEach\<close> over \<^verbatim>\<open>Object.entries(UPDATED_CORRUPTION_KEYWORDS)\<close>.\<close>

definition scoreCategory :: "string \<Rightarrow> Scores \<Rightarrow> string \<times> string list \<Rightarrow> Scores" where
  "scoreCategory contentLower scores entry =
     foldl (scoreKeyword contentLower (fst entry)) scores (snd entry)"

definition categoryScoresOf :: "string \<Rightarrow> Scores" where
  "categoryScoresOf contentText =
     (let contentLower = toLowerCase contentText;
          start = (if includesStr contentLower ''cancel'' \<and> includesStr contentLower ''nepo''
                   then addScore ''nepo-babies'' 5 initialScores else initialScores)
      in foldl (scoreCategory contentLower) start UPDATED_CORRUPTION_KEYWORDS)"

text \<open>\<^verbatim>\<open>Math.max(...values)\<close>; \<open>None\<close> stands for \<^verbatim>\<open>-Infinity\<close>, the maximum of no
  values.\<close>

fun mathMax :: "int list \<Rightarrow> int option" where
  "mathMax [] = None"
| "mathMax (v # vs) = (case mathMax vs of None \<Rightarrow> Some v | Some m \<Rightarrow> Some (max v m))"

record Detection =
  isRelevant :: bool
  detectedCategory :: string
  score :: "int option"

text \<open>The parameter \<open>targetCategory\<close> is not read by the function.\<close>

definition isCorruptionRelated :: "string \<Rightarrow> string option \<Rightarrow> Detection" where
  "isCorruptionRelated contentText targetCategory =
     (let categoryScores = categoryScoresOf contentText;
          maxScore = mathMax (map snd categoryScores);
          found = find (\<lambda>cat. case (map_of categoryScores cat, maxScore) of
                                 (Some v, Some m) \<Rightarrow> v = m | _ \<Rightarrow> False)
                       (map fst categoryScores)
      in \<lparr>isRelevant = (case maxScore of None \<Rightarrow> False | Some m \<Rightarrow> m \<ge> 1),
          detectedCategory = (case found of None \<Rightarrow> ''corrupt-politicians'' | Some cat \<Rightarrow> cat),
          score = maxScore\<rparr>)"

section \<open>The aggregation endpoint: searchWithWeb and GET\<close>

text \<open>The environment variables the handler reads.\<close>

record Env =
  USE_GEMINI_SEARCH :: "string option"
  GEMINI_API_KEY :: "string option"
  WEB_SEARCH_PROVIDER :: "string option"
  TAVILY_API_KEY :: "string option"
  SERPER_API_KEY :: "string option"
  NEWS_API_KEY :: "string option"

text \<open>
  Each adapter first checks its API key and throws when it is missing. What it does
  afterwards (the upstream call, normalization, the locality and date filters, dedupe and
  slice) depends on the network, and enters the model as the adapter's outcome:
  \<open>Inl\<close> the message of the error it throws, \<open>Inr\<close> the articles it returns.
\<close>

record Upstream =
  gemini_reply :: "string + NewsArticle list"
  tavily_reply :: "string + NewsArticle list"
  serper_reply :: "string + NewsArticle list"
  newsapi_reply :: "string + NewsArticle list"

definition searchWithGemini :: "Env \<Rightarrow> Upstream \<Rightarrow> string + NewsArticle list" where
  "searchWithGemini env up =
     (if \<not> truthy (GEMINI_API_KEY env) then Inl ''Gemini API key missing''
      else gemini_reply up)"

definition webSearchTavily :: "Env \<Rightarrow> Upstream \<Rightarrow> string + NewsArticle list" where
  "webSearchTavily env up =
     (if \<not> truthy (TAVILY_API_KEY env) then Inl ''Tavily API not configured''
      else tavily_reply up)"

definition webSearchSerper :: "Env \<Rightarrow> Upstream \<Rightarrow> string + NewsArticle list" where
  "webSearchSerper env up =
     (if \<not> truthy (SERPER_API_KEY env) then Inl ''Serper API not configured''
      else serper_reply up)"

definition fallbackNewsAPISearch :: "Env \<Rightarrow> Upstream \<Rightarrow> string + NewsArticle list" where
  "fallbackNewsAPISearch env up =
     (if \<not> truthy (NEWS_API_KEY env) then Inl ''NewsAPI not configured''
      else newsapi_reply up)"

text \<open>The closures pushed on \<^verbatim>\<open>tryOrder\<close> are named by the adapter they call.\<close>

datatype WebProvider = Tavily | Serper

definition callWeb :: "Env \<Rightarrow> Upstream \<Rightarrow> WebProvider \<Rightarrow> string + NewsArticle list" where
  "callWeb env up fn = (case fn of Tavily \<Rightarrow> webSearchTavily env up
                                  | Serper \<Rightarrow> webSearchSerper env up)"

definition adapterName :: "WebProvider \<Rightarrow> string" where
  "adapterName fn = (case fn of Tavily \<Rightarrow> ''webSearchTavily'' | Serper \<Rightarrow> ''webSearchSerper'')"

definition pushByName :: "Env \<Rightarrow> string \<Rightarrow> WebProvider list" where
  "pushByName env nm =
     (if nm = ''tavily'' \<and> truthy (TAVILY_API_KEY env) then [Tavily] else [])
     @ (if nm = ''serper'' \<and> truthy (SERPER_API_KEY env) then [Serper] else [])"

definition tryOrderOf :: "Env \<Rightarrow> WebProvider list" where
  "tryOrderOf env =
     (let preferred = toLowerCase (orEmpty (WEB_SEARCH_PROVIDER env));
          pushed = (if preferred \<noteq> [] then pushByName env preferred else [])
      in if length pushed = 0
         then pushed @ (if truthy (TAVILY_API_KEY env) then [Tavily] else [])
                     @ (if truthy (SERPER_API_KEY env) then [Serper] else [])
         else pushed)"

text \<open>
  The loop over \<^verbatim>\<open>tryOrder\<close>. The state is \<open>(collected, firstError, called)\<close>: the
  two variables of the source and a log of the adapters awaited so far, which the source
  does not keep and which records the calls the loop makes.
\<close>

fun webLoop ::
  "(string \<Rightarrow> string option) \<Rightarrow> (WebProvider \<Rightarrow> string + NewsArticle list) \<Rightarrow>
   WebProvider list \<Rightarrow> NewsArticle list \<times> string option \<times> string list \<Rightarrow>
   NewsArticle list \<times> string option \<times> string list" where
  "webLoop H call [] (collected, firstError, called) = (collected, firstError, called)"
| "webLoop H call (fn # rest) (collected, firstError, called) =
     (case call fn of
        Inr res \<Rightarrow>
          (if dedupeArticles H (collected @ res) \<noteq> []
           then (dedupeArticles H (collected @ res), firstError, called @ [adapterName fn])
           else webLoop H call rest
                  (dedupeArticles H (collected @ res), firstError, called @ [adapterName fn]))
      | Inl e \<Rightarrow>
          webLoop H call rest
            (collected, if firstError = None then Some e else firstError,
             called @ [adapterName fn]))"

definition searchWithWeb ::
  "(string \<Rightarrow> string option) \<Rightarrow> Env \<Rightarrow> Upstream \<Rightarrow> string + NewsArticle list" where
  "searchWithWeb H env up =
     (case webLoop H (callWeb env up) (tryOrderOf env) ([], None, []) of
        (collected, firstError, called) \<Rightarrow>
          if collected = []
          then (case firstError of
                  Some e \<Rightarrow> Inl e
                | None \<Rightarrow> Inl ''No web search provider available or returned results.'')
          else Inr collected)"

text \<open>The adapters one call of \<open>searchWithWeb\<close> awaits, in order.\<close>

definition searchWithWebCalls ::
  "(string \<Rightarrow> string option) \<Rightarrow> Env \<Rightarrow> Upstream \<Rightarrow> string list" where
  "searchWithWebCalls H env up =
     (case webLoop H (callWeb env up) (tryOrderOf env) ([], None, []) of
        (collected, firstError, called) \<Rightarrow> called)"

record NewsResponse =
  status :: string
  totalResults :: nat
  articles :: "NewsArticle list"
  error_message :: "string option"
  providerTrace :: "string list option"

record HttpResponse =
  httpStatus :: nat
  payload :: NewsResponse

text \<open>The three provider stages of the handler. The state is \<open>(articles, trace, called)\<close>:
  the two variables of the source and the log of adapters awaited.\<close>

definition geminiStage ::
  "Env \<Rightarrow> Upstream \<Rightarrow> NewsArticle list \<times> string list \<times> string list \<Rightarrow>
   NewsArticle list \<times> string list \<times> string list" where
  "geminiStage env up st =
     (case st of (arts, trace, called) \<Rightarrow>
        if USE_GEMINI_SEARCH env = Some ''true''
        then (case searchWithGemini env up of
                Inr geminiItems \<Rightarrow>
                  if geminiItems \<noteq> []
                  then (geminiItems, trace @ [''gemini:'' @ showNat (length geminiItems)],
                        called @ [''searchWithGemini''])
                  else (arts, trace, called @ [''searchWithGemini''])
              | Inl err \<Rightarrow> (arts, trace, called @ [''searchWithGemini'']))
        else st)"

definition webStage ::
  "(string \<Rightarrow> string option) \<Rightarrow> Env \<Rightarrow> Upstream \<Rightarrow>
   NewsArticle list \<times> string list \<times> string list \<Rightarrow>
   NewsArticle list \<times> string list \<times> string list" where
  "webStage H env up st =
     (case st of (arts, trace, called) \<Rightarrow>
        if arts = []
        then (case searchWithWeb H env up of
                Inr webItems \<Rightarrow>
                  if webItems \<noteq> []
                  then (webItems, trace @ [''web:'' @ showNat (length webItems)],
                        called @ searchWithWebCalls H env up)
                  else (arts, trace, called @ searchWithWebCalls H env up)
              | Inl err \<Rightarrow> (arts, trace, called @ searchWithWebCalls H env up))
        else st)"

definition newsApiStage ::
  "Env \<Rightarrow> Upstream \<Rightarrow> NewsArticle list \<times> string list \<times> string list \<Rightarrow>
   NewsArticle list \<times> string list \<times> string list" where
  "newsApiStage env up st =
     (case st of (arts, trace, called) \<Rightarrow>
        if arts = []
        then (case fallbackNewsAPISearch env up of
                Inr newsApiItems \<Rightarrow>
                  if newsApiItems \<noteq> []
                  then (newsApiItems, trace @ [''newsapi:'' @ showNat (length newsApiItems)],
                        called @ [''fallbackNewsAPISearch''])
                  else (arts, trace, called @ [''fallbackNewsAPISearch''])
              | Inl err \<Rightarrow> (arts, trace, called @ [''fallbackNewsAPISearch'']))
        else st)"

definition providerStages ::
  "(string \<Rightarrow> string option) \<Rightarrow> Env \<Rightarrow> Upstream \<Rightarrow>
   NewsArticle list \<times> string list \<times> string list" where
  "providerStages H env up =
     newsApiStage env up (webStage H env up (geminiStage env up ([], [], [])))"

text \<open>Step 4, the sticky cache fallback, on \<open>(articles, trace)\<close>.\<close>

definition cacheStage ::
  "CacheEntry option \<Rightarrow> NewsArticle list \<times> string list \<Rightarrow> NewsArticle list \<times> string list" where
  "cacheStage cached st =
     (case cached of
        Some entry \<Rightarrow> if fst st = [] then (entry_articles entry, snd st @ [''cache:hit'']) else st
      | None \<Rightarrow> st)"

text \<open>
  The handler. \<open>parsed\<close> is the outcome of its first two statements: \<open>Inr\<close> the cache
  key \<^verbatim>\<open>makeKey(parseParams(request))\<close>, or \<open>Inl\<close> the message of an exception thrown
  there, which the \<^verbatim>\<open>catch\<close> block turns into the 502 response. \<open>tGet\<close> and \<open>tSet\<close>
  are the readings of \<^verbatim>\<open>Date.now()\<close> in \<^verbatim>\<open>getCached\<close> and, after the providers have
  answered, in \<^verbatim>\<open>setCached\<close>. The result is the response and the cache afterwards.
\<close>

definition GET ::
  "(string \<Rightarrow> string option) \<Rightarrow> Env \<Rightarrow> Upstream \<Rightarrow> int \<Rightarrow> int \<Rightarrow> string + string \<Rightarrow> Cache \<Rightarrow>
   HttpResponse \<times> Cache" where
  "GET H env up tGet tSet parsed memoryCache =
     (case parsed of
        Inl msg \<Rightarrow>
          (\<lparr>httpStatus = 502,
            payload = \<lparr>status = ''error'', totalResults = 0, articles = [],
                       error_message =
                         Some (if msg \<noteq> [] then msg
                               else ''Service unavailable - upstream providers failed''),
                       providerTrace = None\<rparr>\<rparr>,
           memoryCache)
      | Inr key \<Rightarrow>
          (let cached = getCached tGet key memoryCache;
               st = cacheStage cached
                      (fst (providerStages H env up), fst (snd (providerStages H env up)))
           in (\<lparr>httpStatus = 200,
                payload = \<lparr>status = ''ok'', totalResults = length (fst st), articles = fst st,
                           error_message = None,
                           providerTrace =
                             Some (if fst st \<noteq> [] then snd st
                                   else case cached of
                                          Some entry \<Rightarrow> entry_providerTrace entry
                                        | None \<Rightarrow> snd st)\<rparr>\<rparr>,
               if fst st \<noteq> [] then setCached tSet key (fst st) (snd st) memoryCache
               else memoryCache)))"

text \<open>The adapters one request awaits, in order.\<close>

definition attempted :: "(string \<Rightarrow> string option) \<Rightarrow> Env \<Rightarrow> Upstream \<Rightarrow> string list" where
  "attempted H env up = snd (snd (providerStages H env up))"

text \<open>
  The fallback chain in words. \<open>providerChain\<close> lists the providers in priority order,
  each with the articles it yields for the request (none when it throws; a web provider's
  output deduplicated): generative search when enabled, the web providers of
  \<open>tryOrderOf\<close>, the legacy news API. \<open>firstHit\<close> is the first provider of a chain with
  at least one article, \<open>uptoFirstHit\<close> the providers up to and including it (all of
  them when there is none), and \<open>stageLabel\<close> the name the trace gives a provider's
  stage.
\<close>

definition itemsOf :: "string + NewsArticle list \<Rightarrow> NewsArticle list" where
  "itemsOf r = (case r of Inl e \<Rightarrow> [] | Inr xs \<Rightarrow> xs)"

definition webChain ::
  "(string \<Rightarrow> string option) \<Rightarrow> Env \<Rightarrow> Upstream \<Rightarrow> (string \<times> NewsArticle list) list" where
  "webChain H env up =
     map (\<lambda>fn. (adapterName fn, dedupeArticles H (itemsOf (callWeb env up fn)))) (tryOrderOf env)"

definition providerChain ::
  "(string \<Rightarrow> string option) \<Rightarrow> Env \<Rightarrow> Upstream \<Rightarrow> (string \<times> NewsArticle list) list" where
  "providerChain H env up =
     (if USE_GEMINI_SEARCH env = Some ''true''
      then [(''searchWithGemini'', itemsOf (searchWithGemini env up))] else [])
     @ webChain H env up
     @ [(''fallbackNewsAPISearch'', itemsOf (fallbackNewsAPISearch env up))]"

fun firstHit :: "(string \<times> NewsArticle list) list \<Rightarrow> (string \<times> NewsArticle list) option" where
  "firstHit [] = None"
| "firstHit ((label, xs) # rest) = (if xs \<noteq> [] then Some (label, xs) else firstHit rest)"

fun uptoFirstHit :: "(string \<times> NewsArticle list) list \<Rightarrow> string list" where
  "uptoFirstHit [] = []"
| "uptoFirstHit ((label, xs) # rest) = label # (if xs \<noteq> [] then [] else uptoFirstHit rest)"

definition stageLabel :: "string \<Rightarrow> string" where
  "stageLabel adapter =
     (if adapter = ''searchWithGemini'' then ''gemini''
      else if adapter = ''fallbackNewsAPISearch'' then ''newsapi''
      else ''web'')"

text \<open>A provider is exhausted when it throws or returns no article.\<close>

definition exhausted :: "string + NewsArticle list \<Rightarrow> bool" where
  "exhausted r = (itemsOf r = [])"

text \<open>Sample environments and upstream behaviours.\<close>

definition allKeys :: Env where
  "allKeys = \<lparr>USE_GEMINI_SEARCH = Some ''true'', GEMINI_API_KEY = Some ''g-key'',
               WEB_SEARCH_PROVIDER = None, TAVILY_API_KEY = Some ''t-key'',
               SERPER_API_KEY = Some ''s-key'', NEWS_API_KEY = Some ''n-key''\<rparr>"

definition allDown :: Upstream where
  "allDown = \<lparr>gemini_reply = Inl ''503 Service Unavailable'', tavily_reply = Inr [],
               serper_reply = Inl ''The operation was aborted'', newsapi_reply = Inr []\<rparr>"

definition serperOnly :: Upstream where
  "serperOnly = \<lparr>gemini_reply = Inr [], tavily_reply = Inr [],
                  serper_reply = Inr [storyRss, storyTwitter], newsapi_reply = Inr []\<rparr>"

definition tavilyOnly :: Upstream where
  "tavilyOnly = \<lparr>gemini_reply = Inr [], tavily_reply = Inr [storyRss],
                  serper_reply = Inr [], newsapi_reply = Inr []\<rparr>"

section \<open>The TL;DR endpoint and its rate limiter (src/app/api/tldr/route.ts)\<close>

text \<open>\<open>memBuckets\<close> maps a client address to its window \<^verbatim>\<open>{count, resetSec}\<close>.\<close>

record Bucket =
  count :: int
  bucket_resetSec :: int

type_synonym Buckets = "string \<Rightarrow> Bucket option"

record RateLimitResult =
  allowed :: bool
  remaining :: int
  resetSec :: int

text \<open>\<open>now\<close> is \<^verbatim>\<open>Date.now()\<close> in milliseconds. The function returns its result and the
  map after \<^verbatim>\<open>memBuckets.set(ip, entry)\<close>.\<close>

definition checkRateLimitMemory ::
  "int \<Rightarrow> string \<Rightarrow> int \<Rightarrow> int \<Rightarrow> Buckets \<Rightarrow> RateLimitResult \<times> Buckets" where
  "checkRateLimitMemory now ip windowSec limit memBuckets =
     (let nowSec = now div 1000;
          fresh = \<lparr>count = 0, bucket_resetSec = nowSec + windowSec\<rparr>;
          entry = (case memBuckets ip of
                     None \<Rightarrow> fresh
                   | Some e \<Rightarrow> if nowSec \<ge> bucket_resetSec e then fresh else e);
          entry' = entry\<lparr>count := count entry + 1\<rparr>
      in (\<lparr>allowed = (count entry' \<le> limit),
           remaining = max 0 (limit - count entry'),
           resetSec = bucket_resetSec entry'\<rparr>,
          memBuckets(ip \<mapsto> entry')))"

record TldrConfig =
  RL_WINDOW_SECONDS :: int
  RL_MAX_REQUESTS :: int
  UPSTASH_URL :: string
  UPSTASH_TOKEN :: string
  TLDR_GEMINI_API_KEY :: "string option"

definition MAX_SAFE_INTEGER :: int where
  "MAX_SAFE_INTEGER = 9007199254740991"

text \<open>
  \<open>checkRateLimit\<close>: disabled for a limit of zero or less, the shared Upstash counter
  when it is configured and the client is known, the in-memory limiter otherwise. The
  Upstash limiter talks to a remote store; its outcome \<open>upstash\<close> comes from outside
  (\<open>Inl\<close> when it throws).
\<close>

definition checkRateLimit ::
  "TldrConfig \<Rightarrow> int \<Rightarrow> string + RateLimitResult \<Rightarrow> string \<Rightarrow> int \<Rightarrow> int \<Rightarrow> Buckets \<Rightarrow>
   string + RateLimitResult \<times> Buckets" where
  "checkRateLimit cfg now upstash ip windowSec limit memBuckets =
     (if limit \<le> 0
      then Inr (\<lparr>allowed = True, remaining = MAX_SAFE_INTEGER,
                 resetSec = now div 1000 + windowSec\<rparr>, memBuckets)
      else if UPSTASH_URL cfg \<noteq> [] \<and> UPSTASH_TOKEN cfg \<noteq> [] \<and> ip \<noteq> ''unknown''
      then (case upstash of Inl e \<Rightarrow> Inl e | Inr rl \<Rightarrow> Inr (rl, memBuckets))
      else Inr (checkRateLimitMemory now ip windowSec limit memBuckets))"

record TldrBody =
  body_title :: "string option"
  body_description :: "string option"
  body_content :: "string option"

text \<open>
  What \<^verbatim>\<open>await request.json()\<close> gives: it throws on malformed JSON; it returns
  \<^verbatim>\<open>null\<close>, on which reading \<^verbatim>\<open>body.title\<close> throws; or it returns a value whose
  \<^verbatim>\<open>title\<close>, \<^verbatim>\<open>description\<close> and \<^verbatim>\<open>content\<close> are strings or missing (a number,
  a string or an array has none of them). Fields of other types are outside the model.
\<close>

datatype JsonBody = InvalidJson | JsonNull | JsonObject TldrBody

text \<open>The request: the three places the client address is read from, and the body.\<close>

record TldrRequest =
  x_forwarded_for :: "string option"
  x_real_ip :: "string option"
  request_ip :: "string option"
  json_body :: JsonBody

definition getClientIp :: "TldrRequest \<Rightarrow> string" where
  "getClientIp req =
     (if truthy (x_forwarded_for req)
         \<and> trim (takeWhile (\<lambda>c. c \<noteq> CHR '','') (orEmpty (x_forwarded_for req))) \<noteq> []
      then trim (takeWhile (\<lambda>c. c \<noteq> CHR '','') (orEmpty (x_forwarded_for req)))
      else if truthy (x_real_ip req) then trim (orEmpty (x_real_ip req))
      else if truthy (request_ip req) then orEmpty (request_ip req)
      else ''unknown'')"

text \<open>The JSON payload \<^verbatim>\<open>{tldr, fallback, rateLimited}\<close> or \<^verbatim>\<open>{error}\<close> with its HTTP
  status; a flag that is absent from the payload is \<open>False\<close>. The rate-limit headers
  are not modelled.\<close>

record TldrResponse =
  tldr_status :: nat
  tldr :: "string option"
  tldr_error :: "string option"
  tldr_fallback :: bool
  rateLimited :: bool

definition titleOf :: "TldrRequest \<Rightarrow> string" where
  "titleOf req = (case json_body req of JsonObject body \<Rightarrow> trim (orEmpty (body_title body))
                  | _ \<Rightarrow> [])"

definition descriptionOf :: "TldrRequest \<Rightarrow> string" where
  "descriptionOf req =
     (case json_body req of JsonObject body \<Rightarrow> trim (orEmpty (body_description body))
      | _ \<Rightarrow> [])"

text \<open>
  The handler. \<open>generateFallbackTldr\<close>, the heuristic summary built with regular
  expressions, is a parameter. \<open>gemini\<close> is the outcome of the model call with its
  post-processing (\<open>Inl\<close> when it throws, \<open>Inr\<close> the normalized text). An exception
  reaches the \<^verbatim>\<open>catch\<close> block, which answers 200 with the heuristic summary.
\<close>

definition POST ::
  "TldrConfig \<Rightarrow> (string \<Rightarrow> string \<Rightarrow> string) \<Rightarrow> int \<Rightarrow> string + RateLimitResult \<Rightarrow>
   string + string \<Rightarrow> TldrRequest \<Rightarrow> Buckets \<Rightarrow> TldrResponse \<times> Buckets" where
  "POST cfg generateFallbackTldr now upstash gemini req memBuckets =
     (case json_body req of
        InvalidJson \<Rightarrow>
          (\<lparr>tldr_status = 400, tldr = None, tldr_error = Some ''Invalid JSON body'',
            tldr_fallback = False, rateLimited = False\<rparr>, memBuckets)
      | JsonNull \<Rightarrow>
          (\<lparr>tldr_status = 200, tldr = Some (generateFallbackTldr [] []),
            tldr_error = None, tldr_fallback = True, rateLimited = False\<rparr>, memBuckets)
      | JsonObject body \<Rightarrow>
          if titleOf req = [] \<and> descriptionOf req = []
          then (\<lparr>tldr_status = 400, tldr = None,
                 tldr_error = Some ''Title or description is required'',
                 tldr_fallback = False, rateLimited = False\<rparr>, memBuckets)
          else
            (case checkRateLimit cfg now upstash (getClientIp req)
                    (RL_WINDOW_SECONDS cfg) (RL_MAX_REQUESTS cfg) memBuckets of
               Inl e \<Rightarrow>
                 (\<lparr>tldr_status = 200,
                   tldr = Some (generateFallbackTldr (titleOf req) (descriptionOf req)),
                   tldr_error = None, tldr_fallback = True, rateLimited = False\<rparr>, memBuckets)
             | Inr (rl, buckets) \<Rightarrow>
                 if \<not> allowed rl
                 then (\<lparr>tldr_status = 429,
                        tldr = Some (generateFallbackTldr (titleOf req) (descriptionOf req)),
                        tldr_error = None, tldr_fallback = True, rateLimited = True\<rparr>, buckets)
                 else if \<not> truthy (TLDR_GEMINI_API_KEY cfg)
                 then (\<lparr>tldr_status = 200,
                        tldr = Some (generateFallbackTldr (titleOf req) (descriptionOf req)),
                        tldr_error = None, tldr_fallback = True, rateLimited = False\<rparr>, buckets)
                 else (case gemini of
                         Inl e \<Rightarrow>
                           (\<lparr>tldr_status = 200,
                             tldr = Some (generateFallbackTldr (titleOf req) (descriptionOf req)),
                             tldr_error = None, tldr_fallback = True, rateLimited = False\<rparr>,
                            buckets)
                       | Inr text \<Rightarrow>
                           (\<lparr>tldr_status = 200,
                             tldr = Some (if length text < 10
                                          then generateFallbackTldr (titleOf req) (descriptionOf req)
                                          else text),
                             tldr_error = None, tldr_fallback = False, rateLimited = False\<rparr>,
                            buckets))))"

text \<open>A request as the server sees it: the clock reading, the two outside outcomes and
  the request itself. \<open>servePosts\<close> handles a list of them in order, threading
  \<open>memBuckets\<close>.\<close>

record TldrEvent =
  ev_now :: int
  ev_upstash :: "string + RateLimitResult"
  ev_gemini :: "string + string"
  ev_request :: TldrRequest

fun servePosts ::
  "TldrConfig \<Rightarrow> (string \<Rightarrow> string \<Rightarrow> string) \<Rightarrow> Buckets \<Rightarrow> TldrEvent list \<Rightarrow>
   TldrResponse list \<times> Buckets" where
  "servePosts cfg G memBuckets [] = ([], memBuckets)"
| "servePosts cfg G memBuckets (ev # evs) =
     (case POST cfg G (ev_now ev) (ev_upstash ev) (ev_gemini ev) (ev_request ev) memBuckets of
        (resp, buckets) \<Rightarrow>
          (case servePosts cfg G buckets evs of (resps, final) \<Rightarrow> (resp # resps, final)))"

text \<open>The response of the handler to a rate-limited request.\<close>

definition rejection :: "(string \<Rightarrow> string \<Rightarrow> string) \<Rightarrow> TldrRequest \<Rightarrow> TldrResponse" where
  "rejection G req =
     \<lparr>tldr_status = 429, tldr = Some (G (titleOf req) (descriptionOf req)),
      tldr_error = None, tldr_fallback = True, rateLimited = True\<rparr>"

text \<open>A request of client \<open>ip\<close> that reaches the limiter: its body has a title or a
  description that is not blank.\<close>

definition fromClient :: "string \<Rightarrow> TldrEvent \<Rightarrow> bool" where
  "fromClient ip ev =
     (getClientIp (ev_request ev) = ip
      \<and> (titleOf (ev_request ev) \<noteq> [] \<or> descriptionOf (ev_request ev) \<noteq> []))"

text \<open>Sample configuration and requests for the worked example.\<close>

definition tldrDefaults :: TldrConfig where
  "tldrDefaults = \<lparr>RL_WINDOW_SECONDS = 60, RL_MAX_REQUESTS = 10, UPSTASH_URL = [],
                    UPSTASH_TOKEN = [], TLDR_GEMINI_API_KEY = Some ''g-key''\<rparr>"

definition sampleFallbackTldr :: "string \<Rightarrow> string \<Rightarrow> string" where
  "sampleFallbackTldr t d = ''Isang opisyal ang sangkot sa posibleng katiwalian.''"

definition tldrEventAt :: "int \<Rightarrow> TldrEvent" where
  "tldrEventAt t =
     \<lparr>ev_now = t, ev_upstash = Inl ''not configured'',
      ev_gemini = Inr ''Sangkot ang alkalde sa ghost project ng DPWH.'',
      ev_request = \<lparr>x_forwarded_for = Some ''203.0.113.7, 10.0.0.1'', x_real_ip = None,
                    request_ip = None,
                    json_body =
                      JsonObject \<lparr>body_title = Some ''DPWH audit flags ghost project'',
                                  body_description = None, body_content = None\<rparr>\<rparr>\<rparr>"

section \<open>Stable identifiers: SHA-1 and stableId\<close>

text \<open>
  \<^verbatim>\<open>createHash('sha1').update(key).digest('hex')\<close> is the SHA-1 of FIPS 180-4 over the
  bytes of the key, printed as 40 lower-case hexadecimal digits. Words are integers below
  \<open>2^32\<close>; addition wraps around.
\<close>

definition add32 :: "int \<Rightarrow> int \<Rightarrow> int" where
  "add32 x y = (x + y) mod 4294967296"

definition rotl32 :: "nat \<Rightarrow> int \<Rightarrow> int" where
  "rotl32 n x = (x * 2 ^ n) mod 4294967296 + x div 2 ^ (32 - n)"

definition bytesToWord :: "int list \<Rightarrow> int" where
  "bytesToWord bs = foldl (\<lambda>acc b. acc * 256 + b) 0 bs"

fun chunksOf :: "nat \<Rightarrow> 'a list \<Rightarrow> 'a list list" where
  "chunksOf n xs = (if n = 0 \<or> xs = [] then [] else take n xs # chunksOf n (drop n xs))"

declare chunksOf.simps [simp del]

definition sha1Pad :: "int list \<Rightarrow> int list" where
  "sha1Pad msg =
     msg @ [128] @ replicate ((119 - length msg mod 64) mod 64) 0
     @ map (\<lambda>i. (int (length msg) * 8) div 256 ^ (7 - i) mod 256) [0..<8]"

fun sha1Schedule :: "nat \<Rightarrow> int list \<Rightarrow> int list" where
  "sha1Schedule 0 w = w"
| "sha1Schedule (Suc k) w =
     sha1Schedule k
       (w @ [rotl32 1 (w ! (length w - 3) XOR w ! (length w - 8)
                       XOR w ! (length w - 14) XOR w ! (length w - 16))])"

definition sha1Round :: "int list \<Rightarrow> int \<times> int \<times> int \<times> int \<times> int \<Rightarrow> nat \<Rightarrow> int \<times> int \<times> int \<times> int \<times> int" where
  "sha1Round w st t =
     (case st of (a, b, c, d, e) \<Rightarrow>
        (let f = (if t < 20 then (b AND c) OR (NOT b AND d)
                  else if t < 40 then b XOR c XOR d
                  else if t < 60 then (b AND c) OR (b AND d) OR (c AND d)
                  else b XOR c XOR d);
             k = (if t < 20 then 1518500249 else if t < 40 then 1859775393
                  else if t < 60 then 2400959708 else 3395469782);
             temp = add32 (add32 (add32 (add32 (rotl32 5 a) f) e) k) (w ! t)
         in (temp, a, rotl32 30 b, c, d)))"

definition sha1Block :: "int \<times> int \<times> int \<times> int \<times> int \<Rightarrow> int list \<Rightarrow> int \<times> int \<times> int \<times> int \<times> int" where
  "sha1Block h block =
     (let w = sha1Schedule 64 (map bytesToWord (chunksOf 4 block))
      in case (h, foldl (sha1Round w) h [0..<80]) of
           ((h0, h1, h2, h3, h4), (a, b, c, d, e)) \<Rightarrow>
             (add32 h0 a, add32 h1 b, add32 h2 c, add32 h3 d, add32 h4 e))"

definition hexDigit :: "nat \<Rightarrow> char" where
  "hexDigit d = (if d < 10 then char_of (48 + d) else char_of (87 + d))"

definition hex32 :: "int \<Rightarrow> string" where
  "hex32 x = map (\<lambda>i. hexDigit (nat (x div 16 ^ (7 - i) mod 16))) [0..<8]"

definition sha1Hex :: "string \<Rightarrow> string" where
  "sha1Hex s =
     (case foldl sha1Block (1732584193, 4023233417, 2562383102, 271733878, 3285377520)
             (chunksOf 64 (sha1Pad (map (\<lambda>c. int (of_char c :: nat)) s))) of
        (h0, h1, h2, h3, h4) \<Rightarrow> hex32 h0 @ hex32 h1 @ hex32 h2 @ hex32 h3 @ hex32 h4)"

text \<open>
  \<open>randomKey\<close> is the string \<^verbatim>\<open>Math.random().toString(36)\<close> draws when it is called;
  it is read only when the URL and the fallback key are both missing or empty.
\<close>

definition stableId :: "string \<Rightarrow> string \<Rightarrow> string option \<Rightarrow> string option \<Rightarrow> string" where
  "stableId randomKey prefix u fallbackKey =
     (let key = (if truthy u then orEmpty u
                 else if truthy fallbackKey then orEmpty fallbackKey
                 else randomKey)
      in prefix @ ''_'' @ take 16 (sha1Hex key))"

section \<open>Normalizing one Tavily result (webSearchTavily, the map over data.results)\<close>

definition DOMAIN_TO_OUTLET :: "(string \<times> string) list" where
  "DOMAIN_TO_OUTLET =
     [(''news.abs-cbn.com'', ''ABS-CBN News''), (''gmanetwork.com'', ''GMA News''),
      (''cnnphilippines.com'', ''CNN Philippines''),
      (''inquirer.net'', ''Philippine Daily Inquirer''), (''rappler.com'', ''Rappler''),
      (''mb.com.ph'', ''Manila Bulletin''), (''philstar.com'', ''Philippine Star''),
      (''manilatimes.net'', ''The Manila Times''),
      (''businessworldonline.com'', ''BusinessWorld Philippines''),
      (''sunstar.com.ph'', ''SunStar''), (''tribune.net.ph'', ''Daily Tribune''),
      (''manilastandard.net'', ''Manila Standard''), (''onenews.ph'', ''One News PH''),
      (''pna.gov.ph'', ''Philippine News Agency (PNA)'')]"

definition CATEGORY_VALUES :: "string list" where
  "CATEGORY_VALUES = [''flood-control'', ''dpwh'', ''corrupt-politicians'', ''nepo-babies'']"

definition normalizeCategoryKey :: "string \<Rightarrow> string" where
  "normalizeCategoryKey cat = (if cat \<in> set CATEGORY_VALUES then cat else ''corrupt-politicians'')"

text \<open>\<^verbatim>\<open>DOMAIN_TO_OUTLET[host] || fallback || host || 'Unknown'\<close>; every outlet name of the
  table is non-empty. Host names that are property names of every object
  (\<^verbatim>\<open>constructor\<close> and the like) are outside the model.\<close>

definition guessSourceName ::
  "(string \<Rightarrow> string option) \<Rightarrow> string option \<Rightarrow> string option \<Rightarrow> string" where
  "guessSourceName H u fallback =
     (case map_of DOMAIN_TO_OUTLET (getHostname H u) of
        Some outlet \<Rightarrow> outlet
      | None \<Rightarrow> if truthy fallback then orEmpty fallback
                else if getHostname H u \<noteq> [] then getHostname H u
                else ''Unknown'')"

record TavilyResult =
  r_title :: "string option"
  r_url :: "string option"
  r_source :: "string option"
  r_content :: "string option"
  r_snippet :: "string option"
  r_published_date :: "string option"

text \<open>
  One call of the callback of \<^verbatim>\<open>(data.results || []).map\<close>. \<open>toISOString s\<close> stands
  for \<^verbatim>\<open>new Date(s).toISOString()\<close>, \<open>None\<close> where it throws a RangeError (which aborts
  the whole adapter); \<open>nowISO\<close> is \<^verbatim>\<open>new Date().toISOString()\<close> at the time of the call.
\<close>

definition tavilyItem ::
  "(string \<Rightarrow> string option) \<Rightarrow> (string \<Rightarrow> string option) \<Rightarrow> string \<Rightarrow> string \<Rightarrow> string \<Rightarrow>
   TavilyResult \<Rightarrow> string + NewsArticle" where
  "tavilyItem H toISOString nowISO randomKey categoryKey r =
     (case (if truthy (r_published_date r) then toISOString (orEmpty (r_published_date r))
            else Some nowISO) of
        None \<Rightarrow> Inl ''Invalid time value''
      | Some published \<Rightarrow>
          Inr \<lparr>article_id = Some (stableId randomKey ''tavily'' (r_url r) (r_title r)),
               title = orEmpty (r_title r),
               description = (if truthy (r_content r) then orEmpty (r_content r)
                              else if truthy (r_snippet r) then orEmpty (r_snippet r)
                              else ''No description.''),
               url = r_url r,
               urlToImage = None,
               publishedAt = published,
               source = \<lparr>name = guessSourceName H (r_url r) (r_source r), source_url = None\<rparr>,
               category = normalizeCategoryKey categoryKey,
               content = Some (if truthy (r_snippet r) then orEmpty (r_snippet r)
                               else orEmpty (r_content r)),
               language = None,
               country = None\<rparr>)"

text \<open>Sample date formatter and raw results.\<close>

definition sampleToISOString :: "string \<Rightarrow> string option" where
  "sampleToISOString s =
     (if s = ''2024-01-15T12:00:00Z'' then Some ''2024-01-15T12:00:00.000Z'' else None)"

definition rawStory :: TavilyResult where
  "rawStory = \<lparr>r_title = Some ''DPWH audit flags ghost project'',
                r_url = Some ''https://www.rappler.com/nation/story?utm_source=rss'',
                r_source = None, r_content = Some ''COA flagged a ghost project.'',
                r_snippet = None, r_published_date = Some ''2024-01-15T12:00:00Z''\<rparr>"

definition rawAnonymous :: TavilyResult where
  "rawAnonymous = \<lparr>r_title = None, r_url = None, r_source = Some ''Manila Bulletin'',
                    r_content = Some ''COA flagged a ghost project.'',
                    r_snippet = None, r_published_date = None\<rparr>"

text \<open>The identifier a normalization run produces, if the run produces an article.\<close>

definition producedId :: "string + NewsArticle \<Rightarrow> string option" where
  "producedId run = (case run of Inl e \<Rightarrow> None | Inr a \<Rightarrow> article_id a)"

section \<open>Proofs: the date window\<close>

text \<open>
  C5. \<open>withinWindow\<close> is true when neither bound is given; it is true when the
  article's time stamp does not parse, whatever the bounds; and with bounds that parse,
  each bound is optional on its own and inclusive: with a lower bound only the result is
  \<open>lo \<le> a\<close>, with an upper bound only \<open>a \<le> hi\<close>, with both
  \<open>lo \<le> a \<and> a \<le> hi\<close>, so a time stamp equal to a bound is inside.
\<close>

theorem withinWindow_contract:
  "(\<not> truthy f \<and> \<not> truthy t \<longrightarrow> withinWindow G s f t)
   \<and> (G s = None \<longrightarrow> withinWindow G s f t)
   \<and> (G s = Some a \<and> truthy f \<and> G (orEmpty f) = Some lo \<and> \<not> truthy t
        \<longrightarrow> withinWindow G s f t = (lo \<le> a))
   \<and> (G s = Some a \<and> \<not> truthy f \<and> truthy t \<and> G (orEmpty t) = Some hi
        \<longrightarrow> withinWindow G s f t = (a \<le> hi))
   \<and> (G s = Some a \<and> truthy f \<and> G (orEmpty f) = Some lo \<and> truthy t \<and> G (orEmpty t) = Some hi
        \<longrightarrow> withinWindow G s f t = (lo \<le> a \<and> a \<le> hi))"
  by (auto simp: withinWindow_def)

theorem withinWindow_contract_witness:
  "withinWindow sampleGetTime ''2024-01-01T00:00:00.000Z''
      (Some ''2024-01-01T00:00:00.000Z'') (Some ''2024-01-31T00:00:00.000Z'')
   \<and> withinWindow sampleGetTime ''2024-01-31T00:00:00.000Z''
      (Some ''2024-01-01T00:00:00.000Z'') (Some ''2024-01-31T00:00:00.000Z'')
   \<and> withinWindow sampleGetTime ''2024-01-01T00:00:00.000Z''
      (Some ''2024-01-01T00:00:00.000Z'') None
   \<and> withinWindow sampleGetTime ''2024-01-31T00:00:00.000Z''
      None (Some ''2024-01-31T00:00:00.000Z'')
   \<and> \<not> withinWindow sampleGetTime ''2024-01-31T00:00:00.000Z''
      None (Some ''2024-01-15T12:00:00.000Z'')
   \<and> withinWindow sampleGetTime ''yesterday'' (Some ''2024-01-15T12:00:00.000Z'') None
   \<and> withinWindow sampleGetTime ''2024-01-31T00:00:00.000Z'' None (Some [])"
  using withinWindow_contract [of "Some ''2024-01-01T00:00:00.000Z''" "Some ''2024-01-31T00:00:00.000Z''"
      sampleGetTime "''2024-01-01T00:00:00.000Z''" 1704067200000 1704067200000 1706659200000]
    withinWindow_contract [of "Some ''2024-01-01T00:00:00.000Z''" "Some ''2024-01-31T00:00:00.000Z''"
      sampleGetTime "''2024-01-31T00:00:00.000Z''" 1706659200000 1704067200000 1706659200000]
    withinWindow_contract [of "Some ''2024-01-01T00:00:00.000Z''" "None"
      sampleGetTime "''2024-01-01T00:00:00.000Z''" 1704067200000 1704067200000 0]
    withinWindow_contract [of "None" "Some ''2024-01-31T00:00:00.000Z''"
      sampleGetTime "''2024-01-31T00:00:00.000Z''" 1706659200000 0 1706659200000]
    withinWindow_contract [of "None" "Some ''2024-01-15T12:00:00.000Z''"
      sampleGetTime "''2024-01-31T00:00:00.000Z''" 1706659200000 0 1705320000000]
    withinWindow_contract [of "Some ''2024-01-15T12:00:00.000Z''" "None"
      sampleGetTime "''yesterday''" 0 0 0]
    withinWindow_contract [of "None" "Some []"
      sampleGetTime "''2024-01-31T00:00:00.000Z''" 0 0 0]
  by (simp add: sampleGetTime_def truthy_def orEmpty_def)

lemma map_of_mapSet_same: "map_of (mapSet k v m) k = Some v"
  by (induction m) auto

lemma map_of_mapSet_other: "k' \<noteq> k \<Longrightarrow> map_of (mapSet k v m) k' = map_of m k'"
  by (induction m) auto

lemma length_mapSet_present: "k \<in> fst ` set m \<Longrightarrow> length (mapSet k v m) = length m"
  by (induction m) force+

lemma mapSet_absent: "k \<notin> fst ` set m \<Longrightarrow> mapSet k v m = m @ [(k, v)]"
  by (induction m) auto

lemma map_of_mapDelete_other: "k' \<noteq> k \<Longrightarrow> map_of (mapDelete k' m) k = map_of m k"
  by (induction m) (auto simp: mapDelete_def)

lemma map_of_mapDelete_same: "map_of (mapDelete k m) k = None"
  by (induction m) (auto simp: mapDelete_def)

lemma oldestScan_append:
  "oldestScan acc (xs @ ys) = oldestScan (oldestScan acc xs) ys"
  by (induction acc xs rule: oldestScan.induct) auto

lemma oldestScan_bound:
  "oldestScan (ok, Some t0) xs = (k, t) \<Longrightarrow> \<exists>t'. t = Some t' \<and> t' \<le> t0"
proof (induction xs arbitrary: ok t0)
  case Nil
  then show ?case by auto
next
  case (Cons x xs)
  obtain kx vx where x: "x = (kx, vx)" by (cases x)
  show ?case
  proof (cases "ts vx < t0")
    case True
    with Cons.prems x have "oldestScan (Some kx, Some (ts vx)) xs = (k, t)" by simp
    from Cons.IH [OF this] True show ?thesis by auto
  next
    case False
    with Cons.prems x have "oldestScan (ok, Some t0) xs = (k, t)" by simp
    from Cons.IH [OF this] show ?thesis .
  qed
qed

lemma oldestScan_key:
  "oldestScan (ok, ot) xs = (k, t) \<Longrightarrow> k = ok \<or> (\<exists>k'. k = Some k' \<and> k' \<in> fst ` set xs)"
proof (induction xs arbitrary: ok ot)
  case Nil
  then show ?case by simp
next
  case (Cons x xs)
  obtain kx vx where x: "x = (kx, vx)" by (cases x)
  show ?case
  proof (cases "case ot of None \<Rightarrow> True | Some t \<Rightarrow> ts vx < t")
    case True
    with Cons.prems x have "oldestScan (Some kx, Some (ts vx)) xs = (k, t)" by simp
    from Cons.IH [OF this] x show ?thesis by auto
  next
    case False
    with Cons.prems x have "oldestScan (ok, ot) xs = (k, t)" by simp
    from Cons.IH [OF this] show ?thesis by auto
  qed
qed

lemma oldestScan_last_not_oldest:
  assumes "c \<noteq> []" and "\<forall>kv \<in> set c. ts (snd kv) \<le> ts v"
  shows "\<exists>k'. fst (oldestScan (None, None) (c @ [(key, v)])) = Some k' \<and> k' \<in> fst ` set c"
proof -
  from assms(1) obtain kx vx xs where c: "c = (kx, vx) # xs"
    by (cases c) auto
  obtain k1 t1 where r: "oldestScan (Some kx, Some (ts vx)) xs = (k1, t1)"
    by (cases "oldestScan (Some kx, Some (ts vx)) xs")
  from oldestScan_bound [OF r] obtain t' where t': "t1 = Some t'" "t' \<le> ts vx"
    by blast
  from oldestScan_key [OF r] c obtain k' where k': "k1 = Some k'" "k' \<in> fst ` set c"
    by auto
  from assms(2) c have "ts vx \<le> ts v" by simp
  with t' have "\<not> ts v < t'" by simp
  then have "oldestScan (None, None) (c @ [(key, v)]) = (k1, t1)"
    using c r t' by (simp add: oldestScan_append)
  with k' show ?thesis by simp
qed

lemma setCached_lookup:
  assumes "\<forall>kv \<in> set c. ts (snd kv) \<le> T" and "length c \<le> MAX_CACHE_ENTRIES"
  shows "map_of (setCached T key arts tr c) key
           = Some \<lparr>ts = T, entry_articles = arts, entry_providerTrace = tr\<rparr>"
proof -
  let ?e = "\<lparr>ts = T, entry_articles = arts, entry_providerTrace = tr\<rparr>"
  let ?m = "mapSet key ?e c"
  show ?thesis
  proof (cases "key \<in> fst ` set c")
    case True
    then have "length ?m \<le> MAX_CACHE_ENTRIES"
      using assms(2) by (simp add: length_mapSet_present)
    then show ?thesis
      by (simp add: setCached_def Let_def map_of_mapSet_same)
  next
    case False
    then have m: "?m = c @ [(key, ?e)]" by (rule mapSet_absent)
    show ?thesis
    proof (cases "length ?m > MAX_CACHE_ENTRIES")
      case over: True
      then have "c \<noteq> []" using m by (auto simp: MAX_CACHE_ENTRIES_def)
      moreover have "\<forall>kv \<in> set c. ts (snd kv) \<le> ts ?e" using assms(1) by simp
      ultimately obtain k' where k': "fst (oldestScan (None, None) (c @ [(key, ?e)])) = Some k'"
          "k' \<in> fst ` set c"
        using oldestScan_last_not_oldest [of c ?e key] by blast
      with False have ne: "k' \<noteq> key" by auto
      have k'': "fst (oldestScan (None, None) ?m) = Some k'"
        using k'(1) m by simp
      have "setCached T key arts tr c = (if k' \<noteq> [] then mapDelete k' ?m else ?m)"
        using over k'' by (simp add: setCached_def Let_def truthy_def orEmpty_def)
      then show ?thesis
        using ne by (simp add: map_of_mapDelete_other map_of_mapSet_same)
    next
      case False
      then show ?thesis
        by (simp add: setCached_def Let_def map_of_mapSet_same)
    qed
  qed
qed

lemma setCached_lookup_cases:
  "map_of (setCached T key arts tr c) key = None
   \<or> map_of (setCached T key arts tr c) key
        = Some \<lparr>ts = T, entry_articles = arts, entry_providerTrace = tr\<rparr>"
proof -
  let ?m = "mapSet key \<lparr>ts = T, entry_articles = arts, entry_providerTrace = tr\<rparr> c"
  have "map_of (mapDelete k ?m) key = None \<or> map_of (mapDelete k ?m) key = map_of ?m key" for k
    by (cases "k = key") (simp_all add: map_of_mapDelete_same map_of_mapDelete_other)
  then show ?thesis
    by (simp add: setCached_def Let_def map_of_mapSet_same)
qed

text \<open>The invariant \<open>cacheOk\<close> holds of the empty cache and survives every write made
  at a later reading of the clock.\<close>

lemma cacheOk_empty: "cacheOk T []"
  by (simp add: cacheOk_def)

lemma set_mapSet: "set (mapSet k v m) \<subseteq> insert (k, v) (set m)"
  by (induction m) (auto split: if_splits)

lemma keys_mapSet: "fst ` set (mapSet k v m) = insert k (fst ` set m)"
  by (induction m) (force split: if_splits)+

lemma distinct_mapSet: "distinct (map fst m) \<Longrightarrow> distinct (map fst (mapSet k v m))"
  by (induction m) (auto simp: keys_mapSet)

lemma length_mapSet_le: "length (mapSet k v m) \<le> Suc (length m)"
  by (induction m) auto

lemma length_mapDelete:
  "distinct (map fst m) \<Longrightarrow> k \<in> fst ` set m \<Longrightarrow> Suc (length (mapDelete k m)) = length m"
proof (induction m)
  case Nil
  then show ?case by simp
next
  case (Cons x m)
  show ?case
  proof (cases "fst x = k")
    case True
    with Cons.prems have "k \<notin> fst ` set m" by auto
    then have "filter (\<lambda>kv. fst kv \<noteq> k) m = m"
      by (intro filter_True) force
    with True show ?thesis by (simp add: mapDelete_def)
  next
    case False
    with Cons show ?thesis by (auto simp: mapDelete_def)
  qed
qed

lemma oldestScan_first:
  "m \<noteq> [] \<Longrightarrow> \<exists>k. fst (oldestScan (None, None) m) = Some k \<and> k \<in> fst ` set m"
proof -
  assume "m \<noteq> []"
  then obtain k v rest where m: "m = (k, v) # rest" by (cases m) auto
  obtain k1 t1 where r: "oldestScan (Some k, Some (ts v)) rest = (k1, t1)"
    by (cases "oldestScan (Some k, Some (ts v)) rest")
  from oldestScan_key [OF r] show ?thesis
    using m r by auto
qed

lemma setCached_preserves:
  assumes ok: "cacheOk T c" and later: "T \<le> T'" and key: "key \<noteq> []"
  shows "cacheOk T' (setCached T' key arts tr c)"
proof -
  let ?e = "\<lparr>ts = T', entry_articles = arts, entry_providerTrace = tr\<rparr>"
  let ?m = "mapSet key ?e c"
  have entries: "\<forall>kv \<in> set ?m. ts (snd kv) \<le> T' \<and> fst kv \<noteq> []"
    using ok later key set_mapSet [of key ?e c] by (fastforce simp: cacheOk_def)
  have dist: "distinct (map fst ?m)"
    using ok by (simp add: cacheOk_def distinct_mapSet)
  have len: "length ?m \<le> Suc MAX_CACHE_ENTRIES"
    using ok length_mapSet_le [of key ?e c] by (simp add: cacheOk_def)
  show ?thesis
  proof (cases "length ?m > MAX_CACHE_ENTRIES")
    case False
    then show ?thesis
      using entries dist by (simp add: setCached_def Let_def cacheOk_def)
  next
    case True
    then have "?m \<noteq> []" by auto
    from oldestScan_first [OF this] obtain k where
      k: "fst (oldestScan (None, None) ?m) = Some k" "k \<in> fst ` set ?m"
      by blast
    with entries have "k \<noteq> []" by auto
    then have s: "setCached T' key arts tr c = mapDelete k ?m"
      using True k(1) by (simp add: setCached_def Let_def truthy_def orEmpty_def)
    have "Suc (length (mapDelete k ?m)) = length ?m"
      using dist k(2) by (rule length_mapDelete)
    then have "length (mapDelete k ?m) \<le> MAX_CACHE_ENTRIES"
      using len by simp
    moreover have "set (mapDelete k ?m) \<subseteq> set ?m"
      by (auto simp: mapDelete_def)
    moreover have "distinct (map fst (mapDelete k ?m))"
      using dist by (simp add: mapDelete_def distinct_map_filter)
    ultimately show ?thesis
      using entries unfolding s cacheOk_def by blast
  qed
qed

text \<open>
  C6. An entry written under a key at time \<open>T\<close> is returned by a lookup at
  \<open>T + TTL - 1\<close> ms and is not returned by a lookup at \<open>T + TTL + 1\<close> ms, with
  \<open>TTL = 60000\<close>. The first half is stated for a cache as the handler keeps it: no
  entry stamped later than the clock now reads, and at most \<open>MAX_CACHE_ENTRIES\<close>
  entries; the second half holds for every cache.
\<close>

theorem cache_ttl_boundary:
  "((\<forall>kv \<in> set c. ts (snd kv) \<le> T) \<and> length c \<le> MAX_CACHE_ENTRIES \<longrightarrow>
      getCached (T + CACHE_TTL_MS - 1) key (setCached T key arts tr c)
        = Some \<lparr>ts = T, entry_articles = arts, entry_providerTrace = tr\<rparr>)
   \<and> getCached (T + CACHE_TTL_MS + 1) key (setCached T key arts tr c) = None"
proof (intro conjI impI)
  assume "(\<forall>kv \<in> set c. ts (snd kv) \<le> T) \<and> length c \<le> MAX_CACHE_ENTRIES"
  then have "map_of (setCached T key arts tr c) key
      = Some \<lparr>ts = T, entry_articles = arts, entry_providerTrace = tr\<rparr>"
    using setCached_lookup by blast
  then show "getCached (T + CACHE_TTL_MS - 1) key (setCached T key arts tr c)
      = Some \<lparr>ts = T, entry_articles = arts, entry_providerTrace = tr\<rparr>"
    by (simp add: getCached_def CACHE_TTL_MS_def)
next
  show "getCached (T + CACHE_TTL_MS + 1) key (setCached T key arts tr c) = None"
    using setCached_lookup_cases [of T key arts tr c]
    by (auto simp: getCached_def CACHE_TTL_MS_def)
qed

theorem cache_ttl_boundary_witness:
  "getCached (1704067200000 + CACHE_TTL_MS - 1) ''k1''
      (setCached 1704067200000 ''k1'' [storyRss] [''web:1'']
         [(''k0'', \<lparr>ts = 1704067100000, entry_articles = [storyRetitled],
                    entry_providerTrace = [''newsapi:1'']\<rparr>)])
     = Some \<lparr>ts = 1704067200000, entry_articles = [storyRss], entry_providerTrace = [''web:1'']\<rparr>
   \<and> getCached (1704067200000 + CACHE_TTL_MS + 1) ''k1''
      (setCached 1704067200000 ''k1'' [storyRss] [''web:1'']
         [(''k0'', \<lparr>ts = 1704067100000, entry_articles = [storyRetitled],
                    entry_providerTrace = [''newsapi:1'']\<rparr>)])
     = None"
  using cache_ttl_boundary [of
      "[(''k0'', \<lparr>ts = 1704067100000, entry_articles = [storyRetitled],
                  entry_providerTrace = [''newsapi:1'']\<rparr>)]"
      1704067200000 "''k1''" "[storyRss]" "[''web:1'']"]
  by (simp add: MAX_CACHE_ENTRIES_def)

section \<open>Proofs: the deduplicator\<close>

lemma mapHas_iff: "mapHas k m = (k \<in> fst ` set m)"
  by (simp add: mapHas_def map_of_eq_None_iff)

lemma scan_excluded:
  "excludedHost H a \<Longrightarrow> dedupeScan H (a # xs) (U, T) = dedupeScan H xs (U, T)"
  by simp

lemma scan_url:
  "\<not> excludedHost H a \<Longrightarrow> keyUrlOf a \<noteq> [] \<Longrightarrow> keyUrlOf a \<notin> fst ` set U \<Longrightarrow>
   dedupeScan H (a # xs) (U, T) = dedupeScan H xs (U @ [(keyUrlOf a, a)], T)"
  by (simp add: mapHas_iff mapSet_absent)

lemma scan_title:
  "\<not> excludedHost H a \<Longrightarrow> keyUrlOf a = [] \<or> keyUrlOf a \<in> fst ` set U \<Longrightarrow>
   keyTitleOf a \<noteq> [] \<Longrightarrow> keyTitleOf a \<notin> fst ` set T \<Longrightarrow>
   dedupeScan H (a # xs) (U, T) = dedupeScan H xs (U, T @ [(keyTitleOf a, a)])"
  by (auto simp: mapHas_iff mapSet_absent)

lemma scan_skip:
  "keyUrlOf a = [] \<or> keyUrlOf a \<in> fst ` set U \<Longrightarrow>
   keyTitleOf a = [] \<or> keyTitleOf a \<in> fst ` set T \<Longrightarrow>
   dedupeScan H (a # xs) (U, T) = dedupeScan H xs (U, T)"
  by (auto simp: mapHas_iff)

lemma scan_cases:
  obtains
    (excluded) "excludedHost H a"
  | (byUrl) "\<not> excludedHost H a" "keyUrlOf a \<noteq> []" "keyUrlOf a \<notin> fst ` set U"
  | (byTitle) "\<not> excludedHost H a" "keyUrlOf a = [] \<or> keyUrlOf a \<in> fst ` set U"
      "keyTitleOf a \<noteq> []" "keyTitleOf a \<notin> fst ` set T"
  | (skip) "\<not> excludedHost H a" "keyUrlOf a = [] \<or> keyUrlOf a \<in> fst ` set U"
      "keyTitleOf a = [] \<or> keyTitleOf a \<in> fst ` set T"
  by blast

lemma scanInv_empty: "scanInv H ([], [])"
  by (simp add: scanInv_def)

lemma scanInv_distinct:
  "scanInv H (U, T) \<Longrightarrow> distinct (map fst U)" "scanInv H (U, T) \<Longrightarrow> distinct (map fst T)"
  by (simp_all add: scanInv_def)

lemma scanInv_byUrl:
  "scanInv H (U, T) \<Longrightarrow> (k, a) \<in> set U \<Longrightarrow> k = keyUrlOf a \<and> k \<noteq> [] \<and> \<not> excludedHost H a"
  unfolding scanInv_def by auto

lemma scanInv_byTitle:
  "scanInv H (U, T) \<Longrightarrow> (t, a) \<in> set T \<Longrightarrow>
   t = keyTitleOf a \<and> t \<noteq> [] \<and> \<not> excludedHost H a
   \<and> (keyUrlOf a = [] \<or> keyUrlOf a \<in> fst ` set U)"
  unfolding scanInv_def by auto

lemma scanInv_url:
  assumes "scanInv H (U, T)" "\<not> excludedHost H a" "keyUrlOf a \<noteq> []"
    "keyUrlOf a \<notin> fst ` set U"
  shows "scanInv H (U @ [(keyUrlOf a, a)], T)"
proof -
  have d: "distinct (map fst (U @ [(keyUrlOf a, a)]))"
    using assms(4) scanInv_distinct(1) [OF assms(1)] by simp
  have u: "k = keyUrlOf b \<and> k \<noteq> [] \<and> \<not> excludedHost H b"
    if "(k, b) \<in> set (U @ [(keyUrlOf a, a)])" for k b
  proof (cases "(k, b) \<in> set U")
    case True
    then show ?thesis by (rule scanInv_byUrl [OF assms(1)])
  next
    case False
    with that have "k = keyUrlOf a" "b = a" by simp_all
    then show ?thesis using assms(2,3) by simp
  qed
  have t: "t = keyTitleOf b \<and> t \<noteq> [] \<and> \<not> excludedHost H b
      \<and> (keyUrlOf b = [] \<or> keyUrlOf b \<in> fst ` set (U @ [(keyUrlOf a, a)]))"
    if "(t, b) \<in> set T" for t b
    using scanInv_byTitle [OF assms(1) that] by auto
  show ?thesis
    unfolding scanInv_def fst_conv snd_conv
    using d scanInv_distinct(2) [OF assms(1)] u t by blast
qed

lemma scanInv_title:
  assumes "scanInv H (U, T)" "\<not> excludedHost H a" "keyUrlOf a = [] \<or> keyUrlOf a \<in> fst ` set U"
    "keyTitleOf a \<noteq> []" "keyTitleOf a \<notin> fst ` set T"
  shows "scanInv H (U, T @ [(keyTitleOf a, a)])"
proof -
  have d: "distinct (map fst (T @ [(keyTitleOf a, a)]))"
    using assms(5) scanInv_distinct(2) [OF assms(1)] by simp
  have t: "t = keyTitleOf b \<and> t \<noteq> [] \<and> \<not> excludedHost H b
      \<and> (keyUrlOf b = [] \<or> keyUrlOf b \<in> fst ` set U)"
    if "(t, b) \<in> set (T @ [(keyTitleOf a, a)])" for t b
  proof (cases "(t, b) \<in> set T")
    case True
    then show ?thesis by (rule scanInv_byTitle [OF assms(1)])
  next
    case False
    with that have "t = keyTitleOf a" "b = a" by simp_all
    then show ?thesis using assms(2,3,4) by simp
  qed
  have u: "k = keyUrlOf b \<and> k \<noteq> [] \<and> \<not> excludedHost H b" if "(k, b) \<in> set U" for k b
    using that by (rule scanInv_byUrl [OF assms(1)])
  show ?thesis
    unfolding scanInv_def fst_conv snd_conv
    using d scanInv_distinct(1) [OF assms(1)] u t by blast
qed

lemma scanInv_scan: "scanInv H (U, T) \<Longrightarrow> scanInv H (dedupeScan H xs (U, T))"
proof (induction xs arbitrary: U T)
  case Nil
  then show ?case by simp
next
  case (Cons a xs)
  show ?case
  proof (cases rule: scan_cases [where H = H and a = a and U = U and T = T])
    case excluded
    show ?thesis using Cons by (simp only: scan_excluded [OF excluded])
  next
    case byUrl
    show ?thesis
      using Cons.IH [OF scanInv_url [OF Cons.prems byUrl]] by (simp only: scan_url [OF byUrl])
  next
    case byTitle
    show ?thesis
      using Cons.IH [OF scanInv_title [OF Cons.prems byTitle]]
      by (simp only: scan_title [OF byTitle])
  next
    case skip
    show ?thesis using Cons by (simp only: scan_skip [OF skip(2,3)])
  qed
qed

lemma dedupeScan_append:
  "dedupeScan H (xs @ ys) s = dedupeScan H ys (dedupeScan H xs s)"
proof (induction xs arbitrary: s)
  case Nil
  then show ?case by (cases s) simp
next
  case (Cons a xs)
  obtain U T where s: "s = (U, T)" by (cases s)
  show ?case
    unfolding s by (simp add: Cons.IH)
qed

lemma dedupeMerge_filter:
  "distinct (map fst T) \<Longrightarrow> \<forall>kv \<in> set T. fst kv = keyTitleOf (snd kv) \<Longrightarrow>
   dedupeMerge M T = M @ map snd (filter (\<lambda>kv. fst kv \<notin> keyTitleOf ` set M) T)"
proof (induction T arbitrary: M)
  case Nil
  then show ?case by simp
next
  case (Cons x T)
  obtain t art where x: "x = (t, art)" by (cases x)
  from Cons.prems x have t: "t = keyTitleOf art" and nt: "t \<notin> fst ` set T"
    and d: "distinct (map fst T)" and rest: "\<forall>kv \<in> set T. fst kv = keyTitleOf (snd kv)"
    by auto
  show ?case
  proof (cases "t \<in> keyTitleOf ` set M")
    case True
    then have "find (\<lambda>m. normalizeTitle (title m) = t) M \<noteq> None"
      by (auto simp: find_None_iff keyTitleOf_def)
    then have "dedupeMerge M (x # T) = dedupeMerge M T"
      using x by auto
    then show ?thesis
      using Cons.IH [OF d rest, of M] x True by simp
  next
    case False
    then have found: "find (\<lambda>m. normalizeTitle (title m) = t) M = None"
      by (auto simp: find_None_iff keyTitleOf_def)
    have "\<forall>kv \<in> set T. fst kv \<noteq> t"
      using nt by force
    then have same: "filter (\<lambda>kv. fst kv \<notin> keyTitleOf ` set (M @ [art])) T
                = filter (\<lambda>kv. fst kv \<notin> keyTitleOf ` set M) T"
      using t by (intro filter_cong) auto
    show ?thesis
      using Cons.IH [OF d rest, of "M @ [art]"] x found False same by simp
  qed
qed

lemma scan_url_list:
  "\<forall>a \<in> set As. \<not> excludedHost H a \<and> keyUrlOf a \<noteq> [] \<and> keyUrlOf a \<notin> fst ` set U \<Longrightarrow>
   distinct (map keyUrlOf As) \<Longrightarrow>
   dedupeScan H As (U, T) = (U @ map (\<lambda>a. (keyUrlOf a, a)) As, T)"
proof (induction As arbitrary: U)
  case Nil
  then show ?case by simp
next
  case (Cons a As)
  from Cons.prems have a: "\<not> excludedHost H a" "keyUrlOf a \<noteq> []" "keyUrlOf a \<notin> fst ` set U"
    by auto
  have "keyUrlOf a \<notin> keyUrlOf ` set As"
    using Cons.prems(2) by simp
  then have "\<forall>b \<in> set As. keyUrlOf b \<noteq> keyUrlOf a"
    by (metis image_eqI)
  then have "\<forall>b \<in> set As. \<not> excludedHost H b \<and> keyUrlOf b \<noteq> []
          \<and> keyUrlOf b \<notin> fst ` set (U @ [(keyUrlOf a, a)])"
    using Cons.prems(1) by simp
  moreover have "distinct (map keyUrlOf As)" using Cons.prems by simp
  ultimately have "dedupeScan H As (U @ [(keyUrlOf a, a)], T)
      = ((U @ [(keyUrlOf a, a)]) @ map (\<lambda>a. (keyUrlOf a, a)) As, T)"
    by (rule Cons.IH)
  then show ?case by (simp only: scan_url [OF a]) simp
qed

lemma scan_title_list:
  "\<forall>b \<in> set Bs. \<not> excludedHost H b \<and> (keyUrlOf b = [] \<or> keyUrlOf b \<in> fst ` set U)
      \<and> keyTitleOf b \<noteq> [] \<and> keyTitleOf b \<notin> fst ` set T \<Longrightarrow>
   distinct (map keyTitleOf Bs) \<Longrightarrow>
   dedupeScan H Bs (U, T) = (U, T @ map (\<lambda>b. (keyTitleOf b, b)) Bs)"
proof (induction Bs arbitrary: T)
  case Nil
  then show ?case by simp
next
  case (Cons b Bs)
  from Cons.prems have b: "\<not> excludedHost H b" "keyUrlOf b = [] \<or> keyUrlOf b \<in> fst ` set U"
      "keyTitleOf b \<noteq> []" "keyTitleOf b \<notin> fst ` set T"
    by auto
  have "keyTitleOf b \<notin> keyTitleOf ` set Bs"
    using Cons.prems(2) by simp
  then have "\<forall>c \<in> set Bs. keyTitleOf c \<noteq> keyTitleOf b"
    by (metis image_eqI)
  then have "\<forall>c \<in> set Bs. \<not> excludedHost H c \<and> (keyUrlOf c = [] \<or> keyUrlOf c \<in> fst ` set U)
          \<and> keyTitleOf c \<noteq> [] \<and> keyTitleOf c \<notin> fst ` set (T @ [(keyTitleOf b, b)])"
    using Cons.prems(1) by simp
  moreover have "distinct (map keyTitleOf Bs)" using Cons.prems by simp
  ultimately have "dedupeScan H Bs (U, T @ [(keyTitleOf b, b)])
      = (U, (T @ [(keyTitleOf b, b)]) @ map (\<lambda>b. (keyTitleOf b, b)) Bs)"
    by (rule Cons.IH)
  then show ?case by (simp only: scan_title [OF b]) simp
qed

lemma keyed_map_snd:
  "\<forall>kv \<in> set U. fst kv = f (snd kv) \<Longrightarrow> map (\<lambda>a. (f a, a)) (map snd U) = U"
  by (induction U) auto

lemma keyed_map_fst:
  "\<forall>kv \<in> set U. fst kv = f (snd kv) \<Longrightarrow> map f (map snd U) = map fst U"
  by (induction U) auto

lemma dedupeArticles_shape:
  assumes "dedupeScan H xs ([], []) = (U, T)"
  shows "dedupeArticles H xs
           = map snd U @ map snd (filter (\<lambda>kv. fst kv \<notin> keyTitleOf ` snd ` set U) T)"
proof -
  have "scanInv H (U, T)"
    using scanInv_scan [OF scanInv_empty, of H xs] assms by simp
  then have "distinct (map fst T)" "\<forall>kv \<in> set T. fst kv = keyTitleOf (snd kv)"
    by (auto simp: scanInv_def)
  from dedupeMerge_filter [OF this, of "map snd U"] assms show ?thesis
    by (simp add: dedupeArticles_def)
qed

text \<open>
  C4. Deduplicating a second time changes nothing:
  \<open>dedupe (dedupe x) = dedupe x\<close> for every article list \<open>x\<close> (and every URL
  parser).
\<close>

theorem dedupe_idempotent:
  "dedupeArticles H (dedupeArticles H xs) = dedupeArticles H xs"
proof -
  obtain U T where s: "dedupeScan H xs ([], []) = (U, T)"
    by (cases "dedupeScan H xs ([], [])")
  define P where "P = (\<lambda>kv :: string \<times> NewsArticle. fst kv \<notin> keyTitleOf ` snd ` set U)"
  define T' where "T' = filter P T"
  have inv: "scanInv H (U, T)"
    using scanInv_scan [OF scanInv_empty, of H xs] s by simp
  have R: "dedupeArticles H xs = map snd U @ map snd T'"
    using dedupeArticles_shape [OF s] by (simp add: T'_def P_def)
  have U1: "\<forall>a \<in> set (map snd U). \<not> excludedHost H a \<and> keyUrlOf a \<noteq> []
              \<and> keyUrlOf a \<notin> fst ` set ([] :: (string \<times> NewsArticle) list)"
    using scanInv_byUrl [OF inv] by auto
  have Ufst: "\<forall>kv \<in> set U. fst kv = keyUrlOf (snd kv)"
    using scanInv_byUrl [OF inv] by auto
  have Ukeys: "map (\<lambda>a. (keyUrlOf a, a)) (map snd U) = U"
    using Ufst by (rule keyed_map_snd)
  have "map keyUrlOf (map snd U) = map fst U"
    using Ufst by (rule keyed_map_fst)
  then have U2: "distinct (map keyUrlOf (map snd U))"
    using scanInv_distinct(1) [OF inv] by (simp only:)
  have step1: "dedupeScan H (map snd U) ([], []) = (U, [])"
    using scan_url_list [OF U1 U2, of "[]"] Ukeys by simp
  have T'sub: "set T' \<subseteq> set T" by (auto simp: T'_def)
  have Tfst: "\<forall>kv \<in> set T'. fst kv = keyTitleOf (snd kv)"
    using scanInv_byTitle [OF inv] T'sub by auto
  have T'keys: "map (\<lambda>b. (keyTitleOf b, b)) (map snd T') = T'"
    using Tfst by (rule keyed_map_snd)
  have T1: "\<forall>b \<in> set (map snd T'). \<not> excludedHost H b
              \<and> (keyUrlOf b = [] \<or> keyUrlOf b \<in> fst ` set U)
              \<and> keyTitleOf b \<noteq> [] \<and> keyTitleOf b \<notin> fst ` set ([] :: (string \<times> NewsArticle) list)"
  proof
    fix b assume "b \<in> set (map snd T')"
    then obtain t where "(t, b) \<in> set T" using T'sub by auto
    from scanInv_byTitle [OF inv this] show "\<not> excludedHost H b
              \<and> (keyUrlOf b = [] \<or> keyUrlOf b \<in> fst ` set U)
              \<and> keyTitleOf b \<noteq> [] \<and> keyTitleOf b \<notin> fst ` set ([] :: (string \<times> NewsArticle) list)"
      by auto
  qed
  have dT': "distinct (map fst T')"
    using scanInv_distinct(2) [OF inv] by (simp add: T'_def distinct_map_filter)
  have "map keyTitleOf (map snd T') = map fst T'"
    using Tfst by (rule keyed_map_fst)
  then have T2: "distinct (map keyTitleOf (map snd T'))"
    using dT' by (simp only:)
  have step2: "dedupeScan H (map snd T') (U, []) = (U, T')"
    using scan_title_list [OF T1 T2] T'keys by simp
  have scan2: "dedupeScan H (dedupeArticles H xs) ([], []) = (U, T')"
    by (simp add: R dedupeScan_append step1 step2)
  have "filter P T' = T'" by (simp add: T'_def)
  then show ?thesis
    using dedupeArticles_shape [OF scan2] R by (simp add: P_def)
qed


theorem dedupe_idempotent_witness:
  "dedupeArticles httpHostname
     (dedupeArticles httpHostname [storyRss, storyRetitled, storyTwitter])
   = [storyRss, storyRetitled]"
proof -
  have "dedupeArticles httpHostname [storyRss, storyRetitled, storyTwitter]
          = [storyRss, storyRetitled]"
    by code_simp
  then show ?thesis
    using dedupe_idempotent [of httpHostname "[storyRss, storyRetitled, storyTwitter]"]
    by simp
qed

lemma scan_byUrl_mono: "set U \<subseteq> set (fst (dedupeScan H xs (U, T)))"
proof (induction xs arbitrary: U T)
  case Nil
  then show ?case by simp
next
  case (Cons a xs)
  show ?case
  proof (cases rule: scan_cases [where H = H and a = a and U = U and T = T])
    case excluded
    show ?thesis using Cons.IH [of U T] by (simp only: scan_excluded [OF excluded])
  next
    case byUrl
    show ?thesis
      using Cons.IH [of "U @ [(keyUrlOf a, a)]" T] by (simp only: scan_url [OF byUrl]) simp
  next
    case byTitle
    show ?thesis
      using Cons.IH [of U "T @ [(keyTitleOf a, a)]"] by (simp only: scan_title [OF byTitle])
  next
    case skip
    show ?thesis using Cons.IH [of U T] by (simp only: scan_skip [OF skip(2,3)])
  qed
qed

lemma scan_byUrl_keys:
  "fst ` set (fst (dedupeScan H xs (U, T))) \<subseteq> fst ` set U \<union> keyUrlOf ` set xs"
proof (induction xs arbitrary: U T)
  case Nil
  then show ?case by simp
next
  case (Cons a xs)
  show ?case
  proof (cases rule: scan_cases [where H = H and a = a and U = U and T = T])
    case excluded
    show ?thesis using Cons.IH [of U T] by (simp only: scan_excluded [OF excluded]) auto
  next
    case byUrl
    show ?thesis
      using Cons.IH [of "U @ [(keyUrlOf a, a)]" T] by (simp only: scan_url [OF byUrl]) auto
  next
    case byTitle
    show ?thesis
      using Cons.IH [of U "T @ [(keyTitleOf a, a)]"] by (simp only: scan_title [OF byTitle]) auto
  next
    case skip
    show ?thesis using Cons.IH [of U T] by (simp only: scan_skip [OF skip(2,3)]) auto
  qed
qed

text \<open>
  C3, as the claim states it, fails: two articles whose URLs differ in the query string
  only are both kept when their headlines differ, because the second one is then filed
  under its title.
\<close>

theorem dedupe_url_collision_counterexample:
  "keyUrlOf storyRss = keyUrlOf storyRetitled \<and> url storyRss \<noteq> url storyRetitled
   \<and> dedupeArticles httpHostname [storyRss, storyRetitled] = [storyRss, storyRetitled]"
  by code_simp

text \<open>
  C3, amended. Let \<open>a\<close> and \<open>b\<close> be two articles of the input, \<open>a\<close> before
  \<open>b\<close>, with different URLs but the same non-empty canonical URL, \<open>a\<close> the first
  article of the list with that canonical URL and its host not on the deny-list. If the
  two normalized titles are equal, the result keeps exactly one of the two: \<open>a\<close>, the
  first occurrence.
\<close>

theorem dedupe_url_collision:
  assumes same: "keyUrlOf a = keyUrlOf b" and nonempty: "keyUrlOf a \<noteq> []"
    and differ: "url a \<noteq> url b"
    and host: "\<not> excludedHost H a"
    and first: "\<forall>c \<in> set pre. keyUrlOf c \<noteq> keyUrlOf a"
    and titles: "keyTitleOf b = keyTitleOf a"
  shows "a \<in> set (dedupeArticles H (pre @ a # mid @ b # post))
         \<and> b \<notin> set (dedupeArticles H (pre @ a # mid @ b # post))"
proof -
  let ?xs = "pre @ a # mid @ b # post"
  obtain U T where s: "dedupeScan H ?xs ([], []) = (U, T)"
    by (cases "dedupeScan H ?xs ([], [])")
  obtain U0 T0 where s0: "dedupeScan H pre ([], []) = (U0, T0)"
    by (cases "dedupeScan H pre ([], [])")
  have inv: "scanInv H (U, T)"
    using scanInv_scan [OF scanInv_empty, of H ?xs] s by simp
  have "fst ` set U0 \<subseteq> keyUrlOf ` set pre"
    using scan_byUrl_keys [of H pre "[]" "[]"] s0 by simp
  then have fresh: "keyUrlOf a \<notin> fst ` set U0"
    using first by auto
  have "dedupeScan H ?xs ([], []) = dedupeScan H (mid @ b # post) (U0 @ [(keyUrlOf a, a)], T0)"
    using s0 scan_url [OF host nonempty fresh] by (simp add: dedupeScan_append)
  with s have "dedupeScan H (mid @ b # post) (U0 @ [(keyUrlOf a, a)], T0) = (U, T)"
    by (simp only:)
  then have "fst (dedupeScan H (mid @ b # post) (U0 @ [(keyUrlOf a, a)], T0)) = U"
    by (simp only: fst_conv)
  then have "set (U0 @ [(keyUrlOf a, a)]) \<subseteq> set U"
    using scan_byUrl_mono [of "U0 @ [(keyUrlOf a, a)]" H "mid @ b # post" T0] by simp
  then have aU: "(keyUrlOf a, a) \<in> set U" by simp
  have shape: "dedupeArticles H ?xs
      = map snd U @ map snd (filter (\<lambda>kv. fst kv \<notin> keyTitleOf ` snd ` set U) T)"
    by (rule dedupeArticles_shape [OF s])
  have "a \<in> snd ` set U" using aU by force
  then have kept: "a \<in> set (dedupeArticles H ?xs)"
    by (simp add: shape)
  have "a \<noteq> b" using differ by auto
  have notU: "b \<notin> snd ` set U"
  proof
    assume "b \<in> snd ` set U"
    then obtain k where kb: "(k, b) \<in> set U" by auto
    from scanInv_byUrl [OF inv kb] same have "(keyUrlOf a, b) \<in> set U"
      using kb by simp
    from eq_key_imp_eq_value [OF scanInv_distinct(1) [OF inv] aU this] \<open>a \<noteq> b\<close>
    show False by simp
  qed
  have notT: "b \<notin> snd ` set (filter (\<lambda>kv. fst kv \<notin> keyTitleOf ` snd ` set U) T)"
  proof
    assume "b \<in> snd ` set (filter (\<lambda>kv. fst kv \<notin> keyTitleOf ` snd ` set U) T)"
    then obtain t where tb: "(t, b) \<in> set T" and tf: "t \<notin> keyTitleOf ` snd ` set U"
      by auto
    from scanInv_byTitle [OF inv tb] titles have "t = keyTitleOf a" by simp
    with tf \<open>a \<in> snd ` set U\<close> show False by blast
  qed
  from kept notU notT show ?thesis
    by (simp add: shape)
qed

theorem dedupe_url_collision_witness:
  "storyRss \<in> set (dedupeArticles httpHostname [storyRss, storyTwitter])
   \<and> storyTwitter \<notin> set (dedupeArticles httpHostname [storyRss, storyTwitter])"
proof -
  have 1: "keyUrlOf storyRss = keyUrlOf storyTwitter" by code_simp
  have 2: "keyUrlOf storyRss \<noteq> []" by code_simp
  have 3: "url storyRss \<noteq> url storyTwitter" by code_simp
  have 4: "\<not> excludedHost httpHostname storyRss" by code_simp
  have 5: "\<forall>c \<in> set []. keyUrlOf c \<noteq> keyUrlOf storyRss" by simp
  have 6: "keyTitleOf storyTwitter = keyTitleOf storyRss" by code_simp
  show ?thesis
    using dedupe_url_collision [OF 1 2 3 4 5 6, of "[]" "[]"] by simp
qed

section \<open>Proofs: the category classifier\<close>

lemma addScore_keys: "map fst (addScore c n s) = map fst s"
  by (induction s) (auto simp: addScore_def)

lemma scoreKeyword_keys: "map fst (scoreKeyword t c s k) = map fst s"
  by (simp add: scoreKeyword_def Let_def addScore_keys)

lemma foldl_scoreKeyword_keys: "map fst (foldl (scoreKeyword t c) s ks) = map fst s"
  by (induction ks arbitrary: s) (simp_all add: scoreKeyword_keys)

lemma scoreCategory_keys: "map fst (scoreCategory t s e) = map fst s"
  by (simp add: scoreCategory_def foldl_scoreKeyword_keys)

lemma foldl_scoreCategory_keys: "map fst (foldl (scoreCategory t) s es) = map fst s"
  by (induction es arbitrary: s) (simp_all add: scoreCategory_keys)

lemma categoryScoresOf_keys:
  "map fst (categoryScoresOf t)
     = [''corrupt-politicians'', ''dpwh'', ''flood-control'', ''nepo-babies'']"
  by (simp add: categoryScoresOf_def Let_def foldl_scoreCategory_keys addScore_keys
      initialScores_def)

lemma four_keys:
  "map fst S = [a, b, c, d] \<Longrightarrow> \<exists>v0 v1 v2 v3. S = [(a, v0), (b, v1), (c, v2), (d, v3)]"
  by (auto simp: map_eq_Cons_conv)

text \<open>
  C8, amended. The four scores are listed in the order corrupt-politicians, dpwh,
  flood-control, nepo-babies. The returned score is their maximum, the returned category
  is the first in that order whose score equals the maximum (so a tie goes to the
  earliest of the tied categories, and to corrupt-politicians only when it is one of
  them), and the text is relevant exactly when the maximum is at least 1.
\<close>

theorem classifier_contract:
  "\<exists>v0 v1 v2 v3.
     categoryScoresOf contentText
       = [(''corrupt-politicians'', v0), (''dpwh'', v1), (''flood-control'', v2),
          (''nepo-babies'', v3)]
     \<and> score (isCorruptionRelated contentText targetCategory) = Some (Max {v0, v1, v2, v3})
     \<and> detectedCategory (isCorruptionRelated contentText targetCategory)
         = (if v0 = Max {v0, v1, v2, v3} then ''corrupt-politicians''
            else if v1 = Max {v0, v1, v2, v3} then ''dpwh''
            else if v2 = Max {v0, v1, v2, v3} then ''flood-control''
            else ''nepo-babies'')
     \<and> isRelevant (isCorruptionRelated contentText targetCategory) = (1 \<le> Max {v0, v1, v2, v3})"
proof -
  from four_keys [OF categoryScoresOf_keys [of contentText]]
  obtain v0 v1 v2 v3 where S: "categoryScoresOf contentText
       = [(''corrupt-politicians'', v0), (''dpwh'', v1), (''flood-control'', v2),
          (''nepo-babies'', v3)]"
    by blast
  have m: "Max {v0, v1, v2, v3} = max v0 (max v1 (max v2 v3))"
    by simp
  have a1: "score (isCorruptionRelated contentText targetCategory)
      = Some (max v0 (max v1 (max v2 v3)))"
    by (simp add: isCorruptionRelated_def Let_def S)
  have a2: "detectedCategory (isCorruptionRelated contentText targetCategory)
         = (if v0 = max v0 (max v1 (max v2 v3)) then ''corrupt-politicians''
            else if v1 = max v0 (max v1 (max v2 v3)) then ''dpwh''
            else if v2 = max v0 (max v1 (max v2 v3)) then ''flood-control''
            else ''nepo-babies'')"
    by (simp add: isCorruptionRelated_def Let_def S)
  have a3: "isRelevant (isCorruptionRelated contentText targetCategory)
      = (1 \<le> max v0 (max v1 (max v2 v3)))"
    by (simp add: isCorruptionRelated_def Let_def S)
  show ?thesis
    by (rule exI [of _ v0], rule exI [of _ v1], rule exI [of _ v2], rule exI [of _ v3])
       (simp only: m S a1 a2 a3 simp_thms)
qed

theorem classifier_contract_witness:
  "isCorruptionRelated ''Ombudsman files plunder case over DPWH kickback'' None
     = \<lparr>isRelevant = True, detectedCategory = ''corrupt-politicians'', score = Some 9\<rparr>"
proof -
  let ?r = "isCorruptionRelated ''Ombudsman files plunder case over DPWH kickback'' None"
  have S: "categoryScoresOf ''Ombudsman files plunder case over DPWH kickback''
      = [(''corrupt-politicians'', 9), (''dpwh'', 6), (''flood-control'', 0), (''nepo-babies'', 0)]"
    by code_simp
  from classifier_contract [of "''Ombudsman files plunder case over DPWH kickback''" None]
  obtain v0 v1 v2 v3 where
    h: "categoryScoresOf ''Ombudsman files plunder case over DPWH kickback''
          = [(''corrupt-politicians'', v0), (''dpwh'', v1), (''flood-control'', v2),
             (''nepo-babies'', v3)]"
      "score ?r = Some (Max {v0, v1, v2, v3})"
      "detectedCategory ?r
         = (if v0 = Max {v0, v1, v2, v3} then ''corrupt-politicians''
            else if v1 = Max {v0, v1, v2, v3} then ''dpwh''
            else if v2 = Max {v0, v1, v2, v3} then ''flood-control''
            else ''nepo-babies'')"
      "isRelevant ?r = (1 \<le> Max {v0, v1, v2, v3})"
    by (elim exE conjE)
  from h(1) have v: "v0 = 9" "v1 = 6" "v2 = 0" "v3 = 0"
    unfolding S by simp_all
  have "isRelevant ?r = True" "detectedCategory ?r = ''corrupt-politicians''" "score ?r = Some 9"
    using h(2,3,4) unfolding v by simp_all
  then show ?thesis
    by (cases ?r) simp
qed

text \<open>
  C8, as the claim states it, fails: for this headline dpwh and flood-control tie for the
  maximum score 4 (both list the keyword "ghost project"), and the classifier returns
  dpwh, not corrupt-politicians.
\<close>

theorem classifier_tie_counterexample:
  "categoryScoresOf ''Senate probes ghost project''
     = [(''corrupt-politicians'', 0), (''dpwh'', 4), (''flood-control'', 4), (''nepo-babies'', 0)]
   \<and> isCorruptionRelated ''Senate probes ghost project'' None
     = \<lparr>isRelevant = True, detectedCategory = ''dpwh'', score = Some 4\<rparr>"
  by code_simp

section \<open>Proofs: the fallback chain and the handler\<close>

lemma dedupeArticles_Nil: "dedupeArticles H [] = []"
  by (simp add: dedupeArticles_def)

lemma firstHit_append:
  "firstHit (xs @ ys) = (case firstHit xs of None \<Rightarrow> firstHit ys | Some hit \<Rightarrow> Some hit)"
  by (induction xs rule: firstHit.induct) simp_all

lemma uptoFirstHit_append:
  "uptoFirstHit (xs @ ys)
     = uptoFirstHit xs @ (case firstHit xs of None \<Rightarrow> uptoFirstHit ys | Some hit \<Rightarrow> [])"
  by (induction xs rule: firstHit.induct) simp_all

lemma firstHit_Some: "firstHit chain = Some (l, xs) \<Longrightarrow> (l, xs) \<in> set chain \<and> xs \<noteq> []"
  by (induction chain rule: firstHit.induct) (auto split: if_splits)

lemma webLoop_run:
  "webLoop H call fns ([], fe, cl)
     = (case firstHit (map (\<lambda>fn. (adapterName fn, dedupeArticles H (itemsOf (call fn)))) fns) of
          None \<Rightarrow> [] | Some hit \<Rightarrow> snd hit,
        fst (snd (webLoop H call fns ([], fe, cl))),
        cl @ uptoFirstHit (map (\<lambda>fn. (adapterName fn, dedupeArticles H (itemsOf (call fn)))) fns))"
proof (induction fns arbitrary: fe cl)
  case Nil
  then show ?case by simp
next
  case (Cons fn rest)
  show ?case
  proof (cases "call fn")
    case (Inl e)
    then show ?thesis
      using Cons.IH [of "if fe = None then Some e else fe" "cl @ [adapterName fn]"]
      by (simp add: itemsOf_def dedupeArticles_Nil)
  next
    case (Inr res)
    show ?thesis
    proof (cases "dedupeArticles H res = []")
      case True
      then show ?thesis
        using Inr Cons.IH [of fe "cl @ [adapterName fn]"] by (simp add: itemsOf_def)
    next
      case False
      then show ?thesis
        using Inr by (simp add: itemsOf_def)
    qed
  qed
qed

lemma searchWithWeb_items:
  "itemsOf (searchWithWeb H env up)
     = (case firstHit (webChain H env up) of None \<Rightarrow> [] | Some hit \<Rightarrow> snd hit)"
proof -
  obtain c f l where r: "webLoop H (callWeb env up) (tryOrderOf env) ([], None, []) = (c, f, l)"
    by (cases "webLoop H (callWeb env up) (tryOrderOf env) ([], None, [])") auto
  have "c = (case firstHit (webChain H env up) of None \<Rightarrow> [] | Some hit \<Rightarrow> snd hit)"
    using webLoop_run [of H "callWeb env up" "tryOrderOf env" None "[]"] r
    by (simp add: webChain_def)
  then show ?thesis
    by (simp add: searchWithWeb_def r itemsOf_def split: option.splits)
qed

lemma searchWithWebCalls_chain:
  "searchWithWebCalls H env up = uptoFirstHit (webChain H env up)"
proof -
  obtain c f l where r: "webLoop H (callWeb env up) (tryOrderOf env) ([], None, []) = (c, f, l)"
    by (cases "webLoop H (callWeb env up) (tryOrderOf env) ([], None, [])") auto
  have "l = uptoFirstHit (webChain H env up)"
    using webLoop_run [of H "callWeb env up" "tryOrderOf env" None "[]"] r
    by (simp add: webChain_def)
  then show ?thesis
    by (simp add: searchWithWebCalls_def r)
qed

lemma webChain_labels: "(l, xs) \<in> set (webChain H env up) \<Longrightarrow> stageLabel l = ''web''"
proof -
  assume "(l, xs) \<in> set (webChain H env up)"
  then obtain fn where "l = adapterName fn" by (auto simp: webChain_def)
  then show ?thesis by (cases fn) (simp_all add: adapterName_def stageLabel_def)
qed

lemma tryOrderOf_cases:
  "tryOrderOf env =
     (if toLowerCase (orEmpty (WEB_SEARCH_PROVIDER env)) = ''tavily'' \<and> truthy (TAVILY_API_KEY env)
      then [Tavily]
      else if toLowerCase (orEmpty (WEB_SEARCH_PROVIDER env)) = ''serper''
              \<and> truthy (SERPER_API_KEY env)
      then [Serper]
      else (if truthy (TAVILY_API_KEY env) then [Tavily] else [])
           @ (if truthy (SERPER_API_KEY env) then [Serper] else []))"
  by (simp add: tryOrderOf_def pushByName_def Let_def)

lemma stage_results:
  "geminiStage env up ([], [], []) =
     (if USE_GEMINI_SEARCH env = Some ''true''
      then (if itemsOf (searchWithGemini env up) \<noteq> []
            then (itemsOf (searchWithGemini env up),
                  [''gemini:'' @ showNat (length (itemsOf (searchWithGemini env up)))],
                  [''searchWithGemini''])
            else ([], [], [''searchWithGemini'']))
      else ([], [], []))"
  "webStage H env up ([], tr, cl) =
     (if itemsOf (searchWithWeb H env up) \<noteq> []
      then (itemsOf (searchWithWeb H env up),
            tr @ [''web:'' @ showNat (length (itemsOf (searchWithWeb H env up)))],
            cl @ searchWithWebCalls H env up)
      else ([], tr, cl @ searchWithWebCalls H env up))"
  "newsApiStage env up ([], tr, cl) =
     (if itemsOf (fallbackNewsAPISearch env up) \<noteq> []
      then (itemsOf (fallbackNewsAPISearch env up),
            tr @ [''newsapi:'' @ showNat (length (itemsOf (fallbackNewsAPISearch env up)))],
            cl @ [''fallbackNewsAPISearch''])
      else ([], tr, cl @ [''fallbackNewsAPISearch'']))"
  "xs \<noteq> [] \<Longrightarrow> webStage H env up (xs, tr, cl) = (xs, tr, cl)"
  "xs \<noteq> [] \<Longrightarrow> newsApiStage env up (xs, tr, cl) = (xs, tr, cl)"
  "xs \<noteq> [] \<Longrightarrow> cacheStage cached (xs, tr) = (xs, tr)"
  by (auto simp: geminiStage_def webStage_def newsApiStage_def cacheStage_def itemsOf_def
      split: sum.splits option.splits)

lemma providerStages_chain:
  "providerStages H env up =
     (case firstHit (providerChain H env up) of
        None \<Rightarrow> ([], [], uptoFirstHit (providerChain H env up))
      | Some hit \<Rightarrow>
          (snd hit, [stageLabel (fst hit) @ '':'' @ showNat (length (snd hit))],
           uptoFirstHit (providerChain H env up)))"
proof -
  let ?g = "itemsOf (searchWithGemini env up)"
  let ?n = "itemsOf (fallbackNewsAPISearch env up)"
  let ?W = "webChain H env up"
  have lab: "stageLabel ''searchWithGemini'' = ''gemini''"
    "stageLabel ''fallbackNewsAPISearch'' = ''newsapi''"
    by (simp_all add: stageLabel_def)
  show ?thesis
  proof (cases "firstHit ?W")
    case None
    then show ?thesis
      by (simp add: providerStages_def providerChain_def stage_results searchWithWeb_items
          searchWithWebCalls_chain firstHit_append uptoFirstHit_append lab)
  next
    case (Some hit)
    obtain l xs where hit: "hit = (l, xs)" by (cases hit)
    from firstHit_Some [of ?W l xs] Some hit
    have "stageLabel l = ''web''" "xs \<noteq> []"
      using webChain_labels by auto
    then show ?thesis
      using Some hit
      by (simp add: providerStages_def providerChain_def stage_results searchWithWeb_items
          searchWithWebCalls_chain firstHit_append uptoFirstHit_append lab)
  qed
qed

lemma GET_first_hit:
  assumes "firstHit (providerChain H env up) = Some (adapter, xs)"
  shows "fst (GET H env up tGet tSet (Inr key) c)
           = \<lparr>httpStatus = 200,
              payload = \<lparr>status = ''ok'', totalResults = length xs, articles = xs,
                         error_message = None,
                         providerTrace = Some [stageLabel adapter @ '':'' @ showNat (length xs)]\<rparr>\<rparr>"
proof -
  have ne: "xs \<noteq> []"
    using firstHit_Some [OF assms] by simp
  then show ?thesis
    by (simp add: GET_def Let_def providerStages_chain assms stage_results)
qed

text \<open>
  C2, amended. The providers are tried in the order of \<open>providerChain\<close>: generative
  search when enabled, then the web providers, then the legacy news API; there is no RSS
  provider. The web providers tried are the preferred one alone when
  \<^verbatim>\<open>WEB_SEARCH_PROVIDER\<close> names a provider whose key is set, and otherwise Tavily then
  Serper, each when its key is set. The adapters a request awaits are exactly the
  providers of the chain up to and including the first that yields at least one article
  (a web provider's output counted after deduplication). The response carries that
  provider's articles, and its trace names that provider's stage (gemini, web or
  newsapi) with the number of articles.
\<close>

theorem fallback_order:
  "tryOrderOf env =
     (if toLowerCase (orEmpty (WEB_SEARCH_PROVIDER env)) = ''tavily'' \<and> truthy (TAVILY_API_KEY env)
      then [Tavily]
      else if toLowerCase (orEmpty (WEB_SEARCH_PROVIDER env)) = ''serper''
              \<and> truthy (SERPER_API_KEY env)
      then [Serper]
      else (if truthy (TAVILY_API_KEY env) then [Tavily] else [])
           @ (if truthy (SERPER_API_KEY env) then [Serper] else []))
   \<and> attempted H env up = uptoFirstHit (providerChain H env up)
   \<and> (\<forall>adapter xs. firstHit (providerChain H env up) = Some (adapter, xs) \<longrightarrow>
         fst (GET H env up tGet tSet (Inr key) c)
           = \<lparr>httpStatus = 200,
              payload = \<lparr>status = ''ok'', totalResults = length xs, articles = xs,
                         error_message = None,
                         providerTrace =
                           Some [stageLabel adapter @ '':'' @ showNat (length xs)]\<rparr>\<rparr>)"
proof (intro conjI allI impI)
  show "attempted H env up = uptoFirstHit (providerChain H env up)"
    by (simp add: attempted_def providerStages_chain split: option.splits)
qed (rule tryOrderOf_cases, rule GET_first_hit)

theorem fallback_order_witness:
  "attempted httpHostname allKeys serperOnly
     = [''searchWithGemini'', ''webSearchTavily'', ''webSearchSerper'']
   \<and> fst (GET httpHostname allKeys serperOnly 0 1000 (Inr ''k'') [])
     = \<lparr>httpStatus = 200,
        payload = \<lparr>status = ''ok'', totalResults = 1, articles = [storyRss],
                   error_message = None, providerTrace = Some [''web:1'']\<rparr>\<rparr>"
proof -
  have chain: "providerChain httpHostname allKeys serperOnly
      = [(''searchWithGemini'', []), (''webSearchTavily'', []),
         (''webSearchSerper'', [storyRss]), (''fallbackNewsAPISearch'', [])]"
    by code_simp
  have hit: "firstHit (providerChain httpHostname allKeys serperOnly)
      = Some (''webSearchSerper'', [storyRss])"
    unfolding chain by code_simp
  have upto: "uptoFirstHit (providerChain httpHostname allKeys serperOnly)
      = [''searchWithGemini'', ''webSearchTavily'', ''webSearchSerper'']"
    unfolding chain by code_simp
  have label: "stageLabel ''webSearchSerper'' @ '':'' @ showNat (length [storyRss]) = ''web:1''"
    by code_simp
  note order = fallback_order [of allKeys httpHostname serperOnly 0 1000 "''k''" "[]"]
  from order have "attempted httpHostname allKeys serperOnly
      = uptoFirstHit (providerChain httpHostname allKeys serperOnly)"
    by (elim conjE)
  moreover from order hit have "fst (GET httpHostname allKeys serperOnly 0 1000 (Inr ''k'') [])
      = \<lparr>httpStatus = 200,
         payload = \<lparr>status = ''ok'', totalResults = length [storyRss], articles = [storyRss],
                    error_message = None,
                    providerTrace =
                      Some [stageLabel ''webSearchSerper'' @ '':''
                            @ showNat (length [storyRss])]\<rparr>\<rparr>"
    by blast
  ultimately show ?thesis
    unfolding upto label by simp
qed

text \<open>
  C2, as the claim states it, fails: with \<^verbatim>\<open>WEB_SEARCH_PROVIDER=serper\<close> the first web
  provider (Tavily) is never called, so although it would return an article and every
  other provider returns none, the response is empty.
\<close>

theorem fallback_order_counterexample:
  "tavily_reply tavilyOnly = Inr [storyRss]
   \<and> attempted httpHostname (allKeys\<lparr>WEB_SEARCH_PROVIDER := Some ''serper''\<rparr>) tavilyOnly
     = [''searchWithGemini'', ''webSearchSerper'', ''fallbackNewsAPISearch'']
   \<and> fst (GET httpHostname (allKeys\<lparr>WEB_SEARCH_PROVIDER := Some ''serper''\<rparr>) tavilyOnly
            0 1000 (Inr ''k'') [])
     = \<lparr>httpStatus = 200,
        payload = \<lparr>status = ''ok'', totalResults = 0, articles = [],
                   error_message = None, providerTrace = Some []\<rparr>\<rparr>"
  by code_simp

lemma firstHit_exhausted: "\<forall>lx \<in> set chain. snd lx = [] \<Longrightarrow> firstHit chain = None"
  by (induction chain rule: firstHit.induct) simp_all

text \<open>
  C1 on the code: when every provider throws or returns no article and the lookup finds
  no live cache entry, the handler answers HTTP 200 with status "ok", zero articles and
  an empty trace, and leaves the cache as it was. The claim asks for status "error" with
  a 5xx status; the handler's 502 response is produced by its \<^verbatim>\<open>catch\<close> block only,
  which no provider failure reaches.
\<close>

theorem total_exhaustion_returns_ok:
  assumes "exhausted (gemini_reply up)" and "exhausted (tavily_reply up)"
    and "exhausted (serper_reply up)" and "exhausted (newsapi_reply up)"
    and "getCached tGet key c = None"
  shows "GET H env up tGet tSet (Inr key) c
           = (\<lparr>httpStatus = 200,
               payload = \<lparr>status = ''ok'', totalResults = 0, articles = [],
                          error_message = None, providerTrace = Some []\<rparr>\<rparr>,
              c)"
proof -
  have g: "itemsOf (searchWithGemini env up) = []"
    using assms(1) by (simp add: searchWithGemini_def exhausted_def itemsOf_def)
  have "itemsOf (callWeb env up fn) = []" for fn
    using assms(2,3)
    by (cases fn) (simp_all add: callWeb_def webSearchTavily_def webSearchSerper_def
        exhausted_def itemsOf_def)
  then have w: "\<forall>lx \<in> set (webChain H env up). snd lx = []"
    by (simp add: webChain_def dedupeArticles_Nil)
  have n: "itemsOf (fallbackNewsAPISearch env up) = []"
    using assms(4) by (simp add: fallbackNewsAPISearch_def exhausted_def itemsOf_def)
  have "\<forall>lx \<in> set (providerChain H env up). snd lx = []"
    using g w n by (auto simp: providerChain_def)
  then have "firstHit (providerChain H env up) = None"
    by (rule firstHit_exhausted)
  then show ?thesis
    using assms(5) by (simp add: GET_def Let_def providerStages_chain cacheStage_def)
qed

theorem total_exhaustion_returns_ok_witness:
  "GET httpHostname allKeys allDown 0 1000 (Inr ''k'') []
     = (\<lparr>httpStatus = 200,
         payload = \<lparr>status = ''ok'', totalResults = 0, articles = [],
                    error_message = None, providerTrace = Some []\<rparr>\<rparr>,
        [])"
proof -
  have "exhausted (gemini_reply allDown)" "exhausted (tavily_reply allDown)"
    "exhausted (serper_reply allDown)" "exhausted (newsapi_reply allDown)"
    by (simp_all add: allDown_def exhausted_def itemsOf_def)
  moreover have "getCached 0 ''k'' [] = None"
    by (simp add: getCached_def)
  ultimately show ?thesis
    by (rule total_exhaustion_returns_ok)
qed

text \<open>The handler keeps the cache invariant, and its cache fallback writes the entry it
  has just read back under the time of the write.\<close>

lemma GET_preserves:
  assumes "cacheOk T c" and "T \<le> tSet" and "key \<noteq> []"
  shows "cacheOk tSet (snd (GET H env up tGet tSet (Inr key) c))"
proof -
  have "cacheOk tSet c"
    using assms(1,2) by (fastforce simp: cacheOk_def)
  then show ?thesis
    using setCached_preserves [OF assms] by (simp add: GET_def Let_def)
qed

lemma GET_cache_fallback:
  assumes "firstHit (providerChain H env up) = None"
    and "getCached tGet key c = Some entry" and "entry_articles entry \<noteq> []"
  shows "GET H env up tGet tSet (Inr key) c
           = (\<lparr>httpStatus = 200,
               payload = \<lparr>status = ''ok'', totalResults = length (entry_articles entry),
                          articles = entry_articles entry, error_message = None,
                          providerTrace = Some [''cache:hit'']\<rparr>\<rparr>,
              setCached tSet key (entry_articles entry) [''cache:hit''] c)"
  using assms by (simp add: GET_def Let_def providerStages_chain cacheStage_def)

text \<open>
  C10 on the code: three requests for one key. At 0 s Serper answers and the article is
  cached with time stamp 1 s. At 59 s and at 119 s every provider fails; each time the
  cached article is served and, because the handler caches whatever it serves, written
  back with a new time stamp. The third response serves the article 118 s after a live
  provider produced it, with a TTL of 60 s.
\<close>

theorem cache_hit_restamps_entry:
  "(case GET httpHostname allKeys serperOnly 0 1000 (Inr ''k'') [] of (r1, c1) \<Rightarrow>
    case GET httpHostname allKeys allDown 59000 60000 (Inr ''k'') c1 of (r2, c2) \<Rightarrow>
    case GET httpHostname allKeys allDown 119000 120000 (Inr ''k'') c2 of (r3, c3) \<Rightarrow>
      (providerTrace (payload r1), articles (payload r1), map (ts \<circ> snd) c1,
       providerTrace (payload r2), articles (payload r2), map (ts \<circ> snd) c2,
       providerTrace (payload r3), articles (payload r3), map (ts \<circ> snd) c3))
   = (Some [''web:1''], [storyRss], [1000],
      Some [''cache:hit''], [storyRss], [60000],
      Some [''cache:hit''], [storyRss], [120000])"
  by code_simp

section \<open>Proofs: the rate limiter\<close>

lemma memory_in_window:
  assumes "b ip = Some \<lparr>count = n, bucket_resetSec = R\<rparr>" and "now div 1000 < R"
  shows "checkRateLimitMemory now ip w limit b
           = (\<lparr>allowed = (n + 1 \<le> limit), remaining = max 0 (limit - (n + 1)), resetSec = R\<rparr>,
              b(ip \<mapsto> \<lparr>count = n + 1, bucket_resetSec = R\<rparr>))"
  using assms by (simp add: checkRateLimitMemory_def Let_def)

lemma memory_fresh:
  assumes "case b ip of None \<Rightarrow> True | Some e \<Rightarrow> bucket_resetSec e \<le> now div 1000"
  shows "checkRateLimitMemory now ip w limit b
           = (\<lparr>allowed = (1 \<le> limit), remaining = max 0 (limit - 1),
               resetSec = now div 1000 + w\<rparr>,
              b(ip \<mapsto> \<lparr>count = 1, bucket_resetSec = now div 1000 + w\<rparr>))"
  using assms by (simp add: checkRateLimitMemory_def Let_def split: option.splits)

lemma POST_memory:
  assumes mem: "UPSTASH_URL cfg = [] \<or> UPSTASH_TOKEN cfg = [] \<or> ip = ''unknown''"
    and pos: "0 < RL_MAX_REQUESTS cfg"
    and ev: "fromClient ip ev"
    and rl: "checkRateLimitMemory (ev_now ev) ip (RL_WINDOW_SECONDS cfg) (RL_MAX_REQUESTS cfg) b
               = (r, b')"
  shows "snd (POST cfg G (ev_now ev) (ev_upstash ev) (ev_gemini ev) (ev_request ev) b) = b'"
    and "allowed r \<Longrightarrow>
           tldr_status (fst (POST cfg G (ev_now ev) (ev_upstash ev) (ev_gemini ev) (ev_request ev) b))
             = 200"
    and "\<not> allowed r \<Longrightarrow>
           fst (POST cfg G (ev_now ev) (ev_upstash ev) (ev_gemini ev) (ev_request ev) b)
             = rejection G (ev_request ev)"
proof -
  from ev have ip: "getClientIp (ev_request ev) = ip"
    and nonempty: "(titleOf (ev_request ev) = [] \<and> descriptionOf (ev_request ev) = []) = False"
    by (auto simp: fromClient_def)
  from nonempty obtain body where body: "json_body (ev_request ev) = JsonObject body"
    by (cases "json_body (ev_request ev)") (simp_all add: titleOf_def descriptionOf_def)
  have c: "checkRateLimit cfg (ev_now ev) (ev_upstash ev) ip
             (RL_WINDOW_SECONDS cfg) (RL_MAX_REQUESTS cfg) b = Inr (r, b')"
    using mem pos rl by (auto simp: checkRateLimit_def)
  show "snd (POST cfg G (ev_now ev) (ev_upstash ev) (ev_gemini ev) (ev_request ev) b) = b'"
    by (simp add: POST_def body ip c nonempty split: sum.splits)
  show "allowed r \<Longrightarrow>
           tldr_status (fst (POST cfg G (ev_now ev) (ev_upstash ev) (ev_gemini ev) (ev_request ev) b))
             = 200"
    by (simp add: POST_def body ip c nonempty split: sum.splits)
  show "\<not> allowed r \<Longrightarrow>
           fst (POST cfg G (ev_now ev) (ev_upstash ev) (ev_gemini ev) (ev_request ev) b)
             = rejection G (ev_request ev)"
    by (simp add: POST_def body ip c nonempty rejection_def split: sum.splits)
qed

lemma servePosts_Cons:
  "servePosts cfg G b (ev # evs)
     = (fst (POST cfg G (ev_now ev) (ev_upstash ev) (ev_gemini ev) (ev_request ev) b)
          # fst (servePosts cfg G
                   (snd (POST cfg G (ev_now ev) (ev_upstash ev) (ev_gemini ev) (ev_request ev) b))
                   evs),
        snd (servePosts cfg G
               (snd (POST cfg G (ev_now ev) (ev_upstash ev) (ev_gemini ev) (ev_request ev) b))
               evs))"
  by (simp split: prod.splits)

lemma servePosts_append:
  "servePosts cfg G b (xs @ ys)
     = (fst (servePosts cfg G b xs) @ fst (servePosts cfg G (snd (servePosts cfg G b xs)) ys),
        snd (servePosts cfg G (snd (servePosts cfg G b xs)) ys))"
proof (induction xs arbitrary: b)
  case Nil
  then show ?case by simp
next
  case (Cons x xs)
  show ?case
    by (simp only: append_Cons servePosts_Cons Cons.IH fst_conv snd_conv)
qed

lemma run_allowed:
  assumes mem: "UPSTASH_URL cfg = [] \<or> UPSTASH_TOKEN cfg = [] \<or> ip = ''unknown''"
    and pos: "0 < RL_MAX_REQUESTS cfg"
  shows "b ip = Some \<lparr>count = n, bucket_resetSec = R\<rparr> \<Longrightarrow>
         \<forall>ev \<in> set evs. fromClient ip ev \<and> ev_now ev div 1000 < R \<Longrightarrow>
         n + int (length evs) \<le> RL_MAX_REQUESTS cfg \<Longrightarrow>
         map tldr_status (fst (servePosts cfg G b evs)) = replicate (length evs) 200
         \<and> snd (servePosts cfg G b evs) ip
             = Some \<lparr>count = n + int (length evs), bucket_resetSec = R\<rparr>"
proof (induction evs arbitrary: b n)
  case Nil
  then show ?case by simp
next
  case (Cons ev evs)
  let ?P = "POST cfg G (ev_now ev) (ev_upstash ev) (ev_gemini ev) (ev_request ev) b"
  from Cons.prems have ev: "fromClient ip ev" and win: "ev_now ev div 1000 < R" by simp_all
  note rl = memory_in_window [where b = b and ip = ip and n = n and R = R
      and now = "ev_now ev" and w = "RL_WINDOW_SECONDS cfg" and limit = "RL_MAX_REQUESTS cfg",
      OF Cons.prems(1) win]
  have ok: "n + 1 \<le> RL_MAX_REQUESTS cfg" using Cons.prems(3) by simp
  have s: "snd ?P = b(ip \<mapsto> \<lparr>count = n + 1, bucket_resetSec = R\<rparr>)"
    by (rule POST_memory(1) [OF mem pos ev rl])
  have st: "tldr_status (fst ?P) = 200"
    using POST_memory(2) [OF mem pos ev rl] ok by simp
  have "snd ?P ip = Some \<lparr>count = n + 1, bucket_resetSec = R\<rparr>"
    by (simp add: s)
  moreover have "\<forall>e \<in> set evs. fromClient ip e \<and> ev_now e div 1000 < R"
    using Cons.prems(2) by simp
  moreover have "(n + 1) + int (length evs) \<le> RL_MAX_REQUESTS cfg"
    using Cons.prems(3) by simp
  ultimately have "map tldr_status (fst (servePosts cfg G (snd ?P) evs)) = replicate (length evs) 200
         \<and> snd (servePosts cfg G (snd ?P) evs) ip
             = Some \<lparr>count = (n + 1) + int (length evs), bucket_resetSec = R\<rparr>"
    by (rule Cons.IH)
  then show ?case
    using st by (simp add: servePosts_Cons add.assoc del: servePosts.simps)
qed

lemma run_rejected:
  assumes mem: "UPSTASH_URL cfg = [] \<or> UPSTASH_TOKEN cfg = [] \<or> ip = ''unknown''"
    and pos: "0 < RL_MAX_REQUESTS cfg"
  shows "b ip = Some \<lparr>count = n, bucket_resetSec = R\<rparr> \<Longrightarrow>
         \<forall>ev \<in> set evs. fromClient ip ev \<and> ev_now ev div 1000 < R \<Longrightarrow>
         RL_MAX_REQUESTS cfg \<le> n \<Longrightarrow>
         fst (servePosts cfg G b evs) = map (\<lambda>ev. rejection G (ev_request ev)) evs
         \<and> snd (servePosts cfg G b evs) ip
             = Some \<lparr>count = n + int (length evs), bucket_resetSec = R\<rparr>"
proof (induction evs arbitrary: b n)
  case Nil
  then show ?case by simp
next
  case (Cons ev evs)
  let ?P = "POST cfg G (ev_now ev) (ev_upstash ev) (ev_gemini ev) (ev_request ev) b"
  from Cons.prems have ev: "fromClient ip ev" and win: "ev_now ev div 1000 < R" by simp_all
  note rl = memory_in_window [where b = b and ip = ip and n = n and R = R
      and now = "ev_now ev" and w = "RL_WINDOW_SECONDS cfg" and limit = "RL_MAX_REQUESTS cfg",
      OF Cons.prems(1) win]
  have over: "\<not> n + 1 \<le> RL_MAX_REQUESTS cfg" using Cons.prems(3) by simp
  have s: "snd ?P = b(ip \<mapsto> \<lparr>count = n + 1, bucket_resetSec = R\<rparr>)"
    by (rule POST_memory(1) [OF mem pos ev rl])
  have st: "fst ?P = rejection G (ev_request ev)"
    using POST_memory(3) [OF mem pos ev rl] over by simp
  have "snd ?P ip = Some \<lparr>count = n + 1, bucket_resetSec = R\<rparr>"
    by (simp add: s)
  moreover have "\<forall>e \<in> set evs. fromClient ip e \<and> ev_now e div 1000 < R"
    using Cons.prems(2) by simp
  moreover have "RL_MAX_REQUESTS cfg \<le> n + 1"
    using Cons.prems(3) by simp
  ultimately have "fst (servePosts cfg G (snd ?P) evs) = map (\<lambda>ev. rejection G (ev_request ev)) evs
         \<and> snd (servePosts cfg G (snd ?P) evs) ip
             = Some \<lparr>count = (n + 1) + int (length evs), bucket_resetSec = R\<rparr>"
    by (rule Cons.IH)
  then show ?case
    using st by (simp add: servePosts_Cons add.assoc del: servePosts.simps)
qed


text \<open>
  C7. The limit is 10 and the window 60 s, and the in-memory limiter is the one in use
  (Upstash is not configured, or the client is unknown). A client with no window open
  sends a request, then any number of further requests before the window resets, then
  one request after the reset; all of them have a body with a title or a description, so
  they reach the limiter. Then the first ten requests are answered 200, every further
  request of the window is answered 429 with the heuristic summary, \<open>fallback\<close> and
  \<open>rateLimited\<close>, and the request after the reset is answered 200. With ten further
  requests in the window, the eleventh request is the rejected one.
\<close>

theorem rate_limit_window:
  assumes cfg: "RL_WINDOW_SECONDS cfg = 60" "RL_MAX_REQUESTS cfg = 10"
    and mem: "UPSTASH_URL cfg = [] \<or> UPSTASH_TOKEN cfg = [] \<or> ip = ''unknown''"
    and fresh: "case b ip of None \<Rightarrow> True | Some e \<Rightarrow> bucket_resetSec e \<le> ev_now first div 1000"
    and first: "fromClient ip first"
    and rest: "\<forall>ev \<in> set rest. fromClient ip ev
                 \<and> ev_now ev div 1000 < ev_now first div 1000 + 60"
    and later: "fromClient ip later" "ev_now first div 1000 + 60 \<le> ev_now later div 1000"
  shows "map tldr_status (fst (servePosts cfg G b (first # rest @ [later])))
           = replicate (Suc (min 9 (length rest))) 200 @ replicate (length rest - 9) 429 @ [200]
         \<and> butlast (drop 10 (fst (servePosts cfg G b (first # rest @ [later]))))
           = map (\<lambda>ev. rejection G (ev_request ev)) (drop 9 rest)"
proof -
  let ?R = "ev_now first div 1000 + 60"
  let ?P = "\<lambda>ev b. POST cfg G (ev_now ev) (ev_upstash ev) (ev_gemini ev) (ev_request ev) b"
  have pos: "0 < RL_MAX_REQUESTS cfg" using cfg by simp
  \<comment> \<open>the first request opens the window\<close>
  note rl1 = memory_fresh [where b = b and ip = ip and now = "ev_now first"
      and w = "RL_WINDOW_SECONDS cfg" and limit = "RL_MAX_REQUESTS cfg", OF fresh]
  have b1: "snd (?P first b) = b(ip \<mapsto> \<lparr>count = 1, bucket_resetSec = ?R\<rparr>)"
    using POST_memory(1) [OF mem pos first rl1] cfg by simp
  have s1: "tldr_status (fst (?P first b)) = 200"
    using POST_memory(2) [OF mem pos first rl1] cfg by simp
  define b1 where "b1 = snd (?P first b)"
  have b1ip: "b1 ip = Some \<lparr>count = 1, bucket_resetSec = ?R\<rparr>"
    by (simp add: b1_def b1)
  \<comment> \<open>the next nine requests are allowed\<close>
  let ?A = "take 9 rest" and ?B = "drop 9 rest"
  have inA: "\<forall>ev \<in> set ?A. fromClient ip ev \<and> ev_now ev div 1000 < ?R"
    using rest by (meson in_set_takeD)
  have inB: "\<forall>ev \<in> set ?B. fromClient ip ev \<and> ev_now ev div 1000 < ?R"
    using rest by (meson in_set_dropD)
  have "1 + int (length ?A) \<le> RL_MAX_REQUESTS cfg"
    using cfg by simp
  from run_allowed [where b = b1 and n = 1 and R = ?R and evs = ?A and G = G,
      OF mem pos b1ip inA this]
  have sA: "map tldr_status (fst (servePosts cfg G b1 ?A)) = replicate (length ?A) 200"
    and bA: "snd (servePosts cfg G b1 ?A) ip
               = Some \<lparr>count = 1 + int (length ?A), bucket_resetSec = ?R\<rparr>"
    by simp_all
  define b2 where "b2 = snd (servePosts cfg G b1 ?A)"
  \<comment> \<open>every further request of the window is rejected\<close>
  have B: "fst (servePosts cfg G b2 ?B) = map (\<lambda>ev. rejection G (ev_request ev)) ?B
           \<and> (\<exists>n. snd (servePosts cfg G b2 ?B) ip = Some \<lparr>count = n, bucket_resetSec = ?R\<rparr>)"
  proof (cases "?B = []")
    case True
    then show ?thesis using bA by (simp add: b2_def)
  next
    case False
    then have "length ?A = 9" by simp
    then have "b2 ip = Some \<lparr>count = 10, bucket_resetSec = ?R\<rparr>"
      using bA by (simp add: b2_def)
    moreover have "RL_MAX_REQUESTS cfg \<le> 10" using cfg by simp
    ultimately show ?thesis
      using run_rejected [where b = b2 and n = 10 and R = ?R and evs = ?B and G = G,
          OF mem pos _ inB] by simp
  qed
  define b3 where "b3 = snd (servePosts cfg G b2 ?B)"
  from B obtain n where b3ip: "b3 ip = Some \<lparr>count = n, bucket_resetSec = ?R\<rparr>"
    by (auto simp: b3_def)
  \<comment> \<open>the request after the reset opens a new window\<close>
  have "case b3 ip of None \<Rightarrow> True | Some e \<Rightarrow> bucket_resetSec e \<le> ev_now later div 1000"
    using b3ip later(2) by simp
  note rl3 = memory_fresh [where b = b3 and ip = ip and now = "ev_now later"
      and w = "RL_WINDOW_SECONDS cfg" and limit = "RL_MAX_REQUESTS cfg", OF this]
  have s3: "tldr_status (fst (?P later b3)) = 200"
    using POST_memory(2) [OF mem pos later(1) rl3] cfg by simp
  \<comment> \<open>putting the four runs together\<close>
  have split: "first # rest @ [later] = [first] @ ?A @ ?B @ [later]"
    by simp
  have run: "fst (servePosts cfg G b (first # rest @ [later]))
      = fst (?P first b) # fst (servePosts cfg G b1 ?A) @ fst (servePosts cfg G b2 ?B)
          @ [fst (?P later b3)]"
    unfolding split
    by (simp add: servePosts_append servePosts_Cons b1_def b2_def b3_def del: servePosts.simps(2)
        append_take_drop_id)
  have lenA: "length (fst (servePosts cfg G b1 ?A)) = min 9 (length rest)"
    using arg_cong [OF sA, of length] by (simp add: min.commute)
  have statuses: "map tldr_status (fst (servePosts cfg G b (first # rest @ [later])))
      = replicate (Suc (min 9 (length rest))) 200 @ replicate (length rest - 9) 429 @ [200]"
    unfolding run using s1 sA s3 B
    by (simp add: rejection_def comp_def min.commute map_replicate_const)
  have "drop 10 (fst (servePosts cfg G b (first # rest @ [later])))
      = drop (9 - min 9 (length rest))
          (map (\<lambda>ev. rejection G (ev_request ev)) ?B @ [fst (?P later b3)])"
    unfolding run using B lenA by simp
  also have "\<dots> = map (\<lambda>ev. rejection G (ev_request ev)) ?B @ drop (9 - length rest) [fst (?P later b3)]"
    by (cases "length rest < 9") simp_all
  finally have "butlast (drop 10 (fst (servePosts cfg G b (first # rest @ [later]))))
      = map (\<lambda>ev. rejection G (ev_request ev)) ?B"
    by (cases "length rest < 9") (simp_all add: butlast_append)
  with statuses show ?thesis by simp
qed


theorem rate_limit_window_witness:
  "map tldr_status
     (fst (servePosts tldrDefaults sampleFallbackTldr Map.empty
             (map tldrEventAt
                [1000, 2000, 3000, 4000, 5000, 6000, 7000, 8000, 9000, 10000, 60999, 61000])))
     = [200, 200, 200, 200, 200, 200, 200, 200, 200, 200, 429, 200]
   \<and> butlast (drop 10
        (fst (servePosts tldrDefaults sampleFallbackTldr Map.empty
                (map tldrEventAt
                   [1000, 2000, 3000, 4000, 5000, 6000, 7000, 8000, 9000, 10000, 60999, 61000]))))
     = [\<lparr>tldr_status = 429,
         tldr = Some ''Isang opisyal ang sangkot sa posibleng katiwalian.'',
         tldr_error = None, tldr_fallback = True, rateLimited = True\<rparr>]"
proof -
  define rest where
    "rest = map tldrEventAt [2000, 3000, 4000, 5000, 6000, 7000, 8000, 9000, 10000, 60999]"
  have c: "RL_WINDOW_SECONDS tldrDefaults = 60" "RL_MAX_REQUESTS tldrDefaults = 10"
    by (simp_all add: tldrDefaults_def)
  have mem: "UPSTASH_URL tldrDefaults = [] \<or> UPSTASH_TOKEN tldrDefaults = []
      \<or> ''203.0.113.7'' = ''unknown''"
    by (simp add: tldrDefaults_def)
  have fresh: "case Map.empty ''203.0.113.7'' of None \<Rightarrow> True
      | Some e \<Rightarrow> bucket_resetSec e \<le> ev_now (tldrEventAt 1000) div 1000"
    by simp
  have first: "fromClient ''203.0.113.7'' (tldrEventAt 1000)"
    by code_simp
  have inwin: "\<forall>ev \<in> set rest. fromClient ''203.0.113.7'' ev
      \<and> ev_now ev div 1000 < ev_now (tldrEventAt 1000) div 1000 + 60"
    unfolding rest_def by code_simp
  have later: "fromClient ''203.0.113.7'' (tldrEventAt 61000)"
    "ev_now (tldrEventAt 1000) div 1000 + 60 \<le> ev_now (tldrEventAt 61000) div 1000"
    by code_simp+
  have e1: "tldrEventAt 1000 # rest @ [tldrEventAt 61000]
      = map tldrEventAt
          [1000, 2000, 3000, 4000, 5000, 6000, 7000, 8000, 9000, 10000, 60999, 61000]"
    by (simp add: rest_def)
  have e2: "replicate (Suc (min 9 (length rest))) 200 @ replicate (length rest - 9) 429 @ [200]
      = [200, 200, 200, 200, 200, 200, 200, 200, 200, 200, 429, 200 :: nat]"
    unfolding rest_def by code_simp
  have e3: "map (\<lambda>ev. rejection sampleFallbackTldr (ev_request ev)) (drop 9 rest)
      = [\<lparr>tldr_status = 429,
          tldr = Some ''Isang opisyal ang sangkot sa posibleng katiwalian.'',
          tldr_error = None, tldr_fallback = True, rateLimited = True\<rparr>]"
    unfolding rest_def by code_simp
  show ?thesis
    using rate_limit_window [OF c mem fresh first inwin later, of sampleFallbackTldr]
    unfolding e1 e2 e3 .
qed

section \<open>Proofs: stable identifiers\<close>

text \<open>
  C9, amended. For a raw item with a non-empty URL or a non-empty title the identifier
  does not depend on the run: \<open>stableId\<close> is the prefix, an underscore and the first 16
  hexadecimal digits of the SHA-1 of the URL or, when the URL is missing or empty, of the
  title, whatever the random generator would draw; and two normalization runs of the
  Tavily adapter over the item, at any two times, produce the same identifier.
\<close>

theorem stable_id_deterministic:
  "(truthy u \<or> truthy t \<longrightarrow>
      stableId rnd1 p u t = stableId rnd2 p u t
      \<and> stableId rnd1 p u t
          = p @ ''_'' @ take 16 (sha1Hex (if truthy u then orEmpty u else orEmpty t)))
   \<and> (truthy (r_url r) \<or> truthy (r_title r) \<longrightarrow>
        producedId (tavilyItem H D now1 rnd1 c r) = producedId (tavilyItem H D now2 rnd2 c r)
        \<and> (\<forall>a. tavilyItem H D now1 rnd1 c r = Inr a \<longrightarrow>
              article_id a
                = Some (''tavily_'' @ take 16 (sha1Hex (if truthy (r_url r) then orEmpty (r_url r)
                                                         else orEmpty (r_title r))))))"
  by (auto simp: stableId_def tavilyItem_def producedId_def Let_def
      split: option.splits if_splits)

theorem stable_id_deterministic_witness:
  "producedId (tavilyItem httpHostname sampleToISOString ''2025-03-01T08:00:00.000Z''
                 ''0.4fzyo82mvyr'' ''dpwh'' rawStory)
     = Some ''tavily_5ea6664bea829014''
   \<and> producedId (tavilyItem httpHostname sampleToISOString ''2025-03-02T09:30:00.000Z''
                   ''0.8w2jfi1m3k9'' ''dpwh'' rawStory)
     = Some ''tavily_5ea6664bea829014''"
proof -
  let ?run1 = "tavilyItem httpHostname sampleToISOString ''2025-03-01T08:00:00.000Z''
                 ''0.4fzyo82mvyr'' ''dpwh'' rawStory"
  let ?run2 = "tavilyItem httpHostname sampleToISOString ''2025-03-02T09:30:00.000Z''
                 ''0.8w2jfi1m3k9'' ''dpwh'' rawStory"
  have given: "truthy (r_url rawStory) \<or> truthy (r_title rawStory)"
    by (simp add: rawStory_def truthy_def)
  obtain a where a: "?run1 = Inr a"
    by (cases ?run1)
       (simp_all add: tavilyItem_def sampleToISOString_def rawStory_def truthy_def orEmpty_def)
  have key: "''tavily_'' @ take 16 (sha1Hex (if truthy (r_url rawStory)
                                              then orEmpty (r_url rawStory)
                                              else orEmpty (r_title rawStory)))
      = ''tavily_5ea6664bea829014''"
    by code_simp
  from stable_id_deterministic [where r = rawStory and H = httpHostname
      and D = sampleToISOString and ?now1.0 = "''2025-03-01T08:00:00.000Z''"
      and ?rnd1.0 = "''0.4fzyo82mvyr''" and c = "''dpwh''"
      and ?now2.0 = "''2025-03-02T09:30:00.000Z''" and ?rnd2.0 = "''0.8w2jfi1m3k9''"] given a
  have "producedId ?run1 = producedId ?run2"
    and "article_id a = Some ''tavily_5ea6664bea829014''"
    unfolding key by blast+
  then show ?thesis
    using a by (simp add: producedId_def)
qed

text \<open>
  C9, as the claim states it, fails: a Tavily result with neither URL nor title is
  hashed under a fresh random key, so two normalization runs over the same item produce
  different identifiers.
\<close>

theorem stable_id_random_counterexample:
  "producedId (tavilyItem httpHostname sampleToISOString ''2025-03-01T08:00:00.000Z''
                 ''0.4fzyo82mvyr'' ''dpwh'' rawAnonymous)
     = Some ''tavily_772cacf761607df5''
   \<and> producedId (tavilyItem httpHostname sampleToISOString ''2025-03-01T08:00:00.000Z''
                   ''0.8w2jfi1m3k9'' ''dpwh'' rawAnonymous)
     = Some ''tavily_11a809da9312d3b8''"
  by code_simp

end
